theory Spec2Isabelle
  imports Main "HOL-Library.Word" "HOL-Library.Sublist"
begin

unbundle bit_operations_syntax

section \<open>The ech package: decoding a DNS response (websocket.go, package ech)\<close>

subsection \<open>Go values\<close>

text \<open>
  A Go \<open>[]byte\<close> is a list of 8-bit words. Offsets are Go \<open>int\<close>s (64 bits); in the
  parser every offset stays below \<open>len(response) + 2^17\<close>, so they are modelled as
  \<open>nat\<close> without wrap-around. A run-time panic (index or slice bounds out of range) is
  the value \<open>None\<close>: every read of the source goes through \<open>index\<close>, \<open>subslice\<close> or
  \<open>Uint16\<close> below, which return \<open>None\<close> exactly where the Go run time panics.
  Slices are checked against the length (Go checks the upper bound of a slice expression
  against the capacity, which is at least the length), so \<open>None\<close> is also returned for
  a read that Go would let through past the length and inside the capacity.
\<close>

type_synonym byte = "8 word"

definition index :: "byte list \<Rightarrow> nat \<Rightarrow> byte option" where
  "index s i = (if i < length s then Some (s ! i) else None)"

definition subslice :: "byte list \<Rightarrow> nat \<Rightarrow> nat \<Rightarrow> byte list option" where
  "subslice s lo hi = (if lo \<le> hi \<and> hi \<le> length s then Some (take (hi - lo) (drop lo s)) else None)"

text \<open>\<open>binary.BigEndian.Uint16(b)\<close>: \<open>_ = b[1]; return uint16(b[1]) | uint16(b[0])<<8\<close>.\<close>

definition Uint16 :: "byte list \<Rightarrow> 16 word option" where
  "Uint16 b = (if length b < 2 then None
               else Some ((ucast (b ! 1) :: 16 word) OR push_bit 8 (ucast (b ! 0) :: 16 word)))"

text \<open>
  \<open>base64.StdEncoding.EncodeToString\<close> of the Go standard library (RFC 4648 section 4,
  alphabet \<open>A-Z a-z 0-9 + /\<close>, padded with \<open>=\<close>): three bytes give four characters of
  six bits each; a remainder of one or two bytes gives two or three characters and padding.
\<close>

definition encodeStd :: "string" where
  "encodeStd = ''ABCDEFGHIJKLMNOPQRSTUVWXYZabcdefghijklmnopqrstuvwxyz0123456789+/''"

definition enc :: "nat \<Rightarrow> char" where
  "enc v = encodeStd ! (v mod 64)"

fun EncodeToString :: "byte list \<Rightarrow> string" where
  "EncodeToString [] = []"
| "EncodeToString [a] =
     (let val = unat a * 65536
      in [enc (val div 262144), enc (val div 4096), CHR ''='', CHR ''=''])"
| "EncodeToString [a, b] =
     (let val = unat a * 65536 + unat b * 256
      in [enc (val div 262144), enc (val div 4096), enc (val div 64), CHR ''=''])"
| "EncodeToString (a # b # c # src) =
     (let val = unat a * 65536 + unat b * 256 + unat c
      in enc (val div 262144) # enc (val div 4096) # enc (val div 64) # enc val
         # EncodeToString src)"

subsection \<open>Errors\<close>

text \<open>
  A Go \<open>error\<close> of the two packages, one constructor for each \<open>errors.New\<close> and
  \<open>fmt.Errorf\<close> of the source (the messages are Chinese; the comments translate them, and
  \<open>Error\<close> below gives their bytes). An error made by a collaborator (HTTP client, TLS and
  WebSocket dial, x509, base64) is \<open>ErrExternal\<close> with its message.
\<close>

datatype error =
    ErrResponseTooShort               \<comment> \<open>errors.New: response too short\<close>
  | ErrNoAnswerRecords                \<comment> \<open>errors.New: no answer records\<close>
  | ErrDNSQueryFailed error           \<comment> \<open>fmt.Errorf: DNS query failed: %w\<close>
  | ErrECHParamNotFound               \<comment> \<open>errors.New: ECH parameter not found\<close>
  | ErrECHDecodeFailed error          \<comment> \<open>fmt.Errorf: ECH decoding failed: %w\<close>
  | ErrECHNotLoaded                   \<comment> \<open>errors.New: ECH configuration not loaded\<close>
  | ErrRootsFailed error              \<comment> \<open>fmt.Errorf: loading the system root certificates failed: %w\<close>
  | ErrInvalidDoHURL error            \<comment> \<open>fmt.Errorf: invalid DoH URL: %v\<close>
  | ErrCreateRequest error            \<comment> \<open>fmt.Errorf: creating the request failed: %v\<close>
  | ErrDoHRequest error               \<comment> \<open>fmt.Errorf: DoH request failed: %v\<close>
  | ErrDoHStatus int                  \<comment> \<open>fmt.Errorf: DoH server returned an error: %d\<close>
  | ErrReadDoH error                  \<comment> \<open>fmt.Errorf: reading the DoH response failed: %v\<close>
  | ErrAddrEmpty                      \<comment> \<open>errors.New: server address is empty\<close>
  | ErrAddrFormat                     \<comment> \<open>errors.New: server address format error\<close>
  | ErrAddrInvalid "error option"     \<comment> \<open>fmt.Errorf: invalid server address format: %v\<close>
  | ErrParseAddr error                \<comment> \<open>fmt.Errorf: parsing the server address failed: %w\<close>
  | ErrBuildTLS error                 \<comment> \<open>fmt.Errorf: building the TLS configuration failed: %w\<close>
  | ErrWSDial error                   \<comment> \<open>fmt.Errorf: WebSocket connection failed: %w\<close>
  | ErrMaxRetries int "error option"  \<comment> \<open>fmt.Errorf: connection failed, reached the maximum number of retries (%d): %v\<close>
  | ErrExternal string                \<comment> \<open>an error of a collaborator, by its message\<close>

subsection \<open>parseHTTPSRecord\<close>

text \<open>
  The TargetName loop of \<open>parseHTTPSRecord\<close>:
  \<^verbatim>\<open>for offset < len(data) && data[offset] != 0 {
      step := int(data[offset]) + 1
      if step <= 0 || offset+step > len(data) { return "" }
      offset += step }\<close>
  \<open>Inl s\<close>: the function returned \<open>s\<close> from inside the loop; \<open>Inr offset\<close>: the loop
  ended with this offset.
\<close>

function targetNameLoop :: "byte list \<Rightarrow> nat \<Rightarrow> (string + nat) option" where
  "targetNameLoop data offset =
     (if offset < length data then
        (case index data offset of
           None \<Rightarrow> None
         | Some b \<Rightarrow>
             if b \<noteq> 0 then
               (case index data offset of
                  None \<Rightarrow> None
                | Some b' \<Rightarrow>
                    let step = unat b' + 1
                    in if step \<le> 0 \<or> offset + step > length data then Some (Inl [])
                       else targetNameLoop data (offset + step))
             else Some (Inr offset))
      else Some (Inr offset))"
  by pat_completeness auto
termination
  by (relation "measure (\<lambda>(data, offset). length data - offset)") auto

text \<open>
  The SvcParam loop: \<open>for offset+4 <= len(data) { ... }\<close> followed by \<open>return ""\<close>, so a
  \<open>break\<close> is the result \<open>""\<close>.
\<close>

function svcParamLoop :: "byte list \<Rightarrow> nat \<Rightarrow> string option" where
  "svcParamLoop data offset =
     (if offset + 4 \<le> length data then
        if offset + 4 > length data then Some []
        else
          (case Option.bind (subslice data offset (offset + 2)) Uint16 of
             None \<Rightarrow> None
           | Some key \<Rightarrow>
               (case Option.bind (subslice data (offset + 2) (offset + 4)) Uint16 of
                  None \<Rightarrow> None
                | Some len \<Rightarrow>
                    let offset = offset + 4
                    in if len = 0 \<or> offset + unat len > length data then Some []
                       else
                         (case subslice data offset (offset + unat len) of
                            None \<Rightarrow> None
                          | Some val \<Rightarrow>
                              let offset = offset + unat len
                              in if key = 5 then Some (EncodeToString val)
                                 else svcParamLoop data offset)))
      else Some [])"
  by pat_completeness auto
termination
  by (relation "measure (\<lambda>(data, offset). length data - offset)") auto

definition parseHTTPSRecord :: "byte list \<Rightarrow> string option" where
  "parseHTTPSRecord data =
     (if length data < 2 then Some []
      else
        let offset = 2
        in if offset \<ge> length data then Some []
           else
             (case index data offset of
                None \<Rightarrow> None
              | Some b \<Rightarrow>
                  if b = 0 then svcParamLoop data (offset + 1)
                  else
                    (case targetNameLoop data offset of
                       None \<Rightarrow> None
                     | Some (Inl s) \<Rightarrow> Some s
                     | Some (Inr offset) \<Rightarrow> svcParamLoop data (offset + 1))))"

subsection \<open>parseDNSResponse\<close>

text \<open>
  The label walk, written twice in \<open>parseDNSResponse\<close> (over the question name and over an
  uncompressed answer name):
  \<^verbatim>\<open>for offset < len(response) && response[offset] != 0 {
      offset += int(response[offset]) + 1 }\<close>
\<close>

function labelLoop :: "byte list \<Rightarrow> nat \<Rightarrow> nat option" where
  "labelLoop response offset =
     (if offset < length response then
        (case index response offset of
           None \<Rightarrow> None
         | Some b \<Rightarrow>
             if b \<noteq> 0 then
               (case index response offset of
                  None \<Rightarrow> None
                | Some b' \<Rightarrow> labelLoop response (offset + (unat b' + 1)))
             else Some offset)
      else Some offset)"
  by pat_completeness auto
termination
  by (relation "measure (\<lambda>(response, offset). length response - offset)") auto

definition TypeHTTPS :: "16 word" where
  "TypeHTTPS = 65"

text \<open>
  The answer loop \<open>for i := 0; i < int(ancount); i++ { ... }\<close> followed by
  \<open>return "", nil\<close>, so a \<open>break\<close> is the result \<open>("", nil)\<close>.
\<close>

function answerLoop :: "byte list \<Rightarrow> nat \<Rightarrow> nat \<Rightarrow> nat \<Rightarrow> (string \<times> error option) option" where
  "answerLoop response ancount i offset =
     (if i < ancount then
        if offset \<ge> length response then Some ([], None)
        else
          (case index response offset of
             None \<Rightarrow> None
           | Some b \<Rightarrow>
               (case (if b AND 0xC0 = 0xC0 then Some (offset + 2)
                      else map_option (\<lambda>offset. offset + 1) (labelLoop response offset)) of
                  None \<Rightarrow> None
                | Some offset \<Rightarrow>
                    if offset + 10 > length response then Some ([], None)
                    else
                      (case Option.bind (subslice response offset (offset + 2)) Uint16 of
                         None \<Rightarrow> None
                       | Some rrType \<Rightarrow>
                           let offset = offset + 8
                           in (case Option.bind (subslice response offset (offset + 2)) Uint16 of
                                 None \<Rightarrow> None
                               | Some dataLen \<Rightarrow>
                                   let offset = offset + 2
                                   in if offset + unat dataLen > length response then Some ([], None)
                                      else
                                        (case subslice response offset (offset + unat dataLen) of
                                           None \<Rightarrow> None
                                         | Some data \<Rightarrow>
                                             let offset = offset + unat dataLen
                                             in if rrType = TypeHTTPS then
                                                  (case parseHTTPSRecord data of
                                                     None \<Rightarrow> None
                                                   | Some ech \<Rightarrow>
                                                       if ech \<noteq> [] then Some (ech, None)
                                                       else answerLoop response ancount (i + 1) offset)
                                                else answerLoop response ancount (i + 1) offset)))))
      else Some ([], None))"
  by pat_completeness auto
termination
  by (relation "measure (\<lambda>(response, ancount, i, offset). ancount - i)") auto

definition parseDNSResponse :: "byte list \<Rightarrow> (string \<times> error option) option" where
  "parseDNSResponse response =
     (if length response < 12 then Some ([], Some ErrResponseTooShort)
      else
        (case Option.bind (subslice response 6 8) Uint16 of
           None \<Rightarrow> None
         | Some ancount \<Rightarrow>
             if ancount = 0 then Some ([], Some ErrNoAnswerRecords)
             else
               (case labelLoop response 12 of
                  None \<Rightarrow> None
                | Some offset \<Rightarrow> answerLoop response (unat ancount) 0 (offset + 5))))"

declare targetNameLoop.simps [simp del] svcParamLoop.simps [simp del]
  labelLoop.simps [simp del] answerLoop.simps [simp del]

section \<open>Well-formed DNS responses\<close>

text \<open>
  The wire format of a response as the specification describes it (section 3 and 4.1: a
  12-byte header with the answer count, the echoed question, then the answer records, each
  with a possibly compressed name, type, class, TTL, data length and data; an HTTPS record's
  data is a priority, a target name and a sequence of SvcParam key/length/value triplets).
  These definitions are the encoder against which the parser of the source is checked; they
  are not part of the program.
\<close>

type_synonym label = "byte list"

definition be16 :: "16 word \<Rightarrow> byte list" where
  "be16 w = [ucast (drop_bit 8 w), ucast w]"

definition be32 :: "32 word \<Rightarrow> byte list" where
  "be32 w = [ucast (drop_bit 24 w), ucast (drop_bit 16 w), ucast (drop_bit 8 w), ucast w]"

text \<open>A name in label form: length-prefixed labels, closed by the zero byte.\<close>

fun wire_labels :: "label list \<Rightarrow> byte list" where
  "wire_labels [] = [0]"
| "wire_labels (l # ls) = of_nat (length l) # l @ wire_labels ls"

definition wf_labels :: "label list \<Rightarrow> bool" where
  "wf_labels ls = list_all (\<lambda>l. 0 < length l \<and> length l \<le> 63) ls"

text \<open>
  An answer's name is either in label form or in pointer form: two bytes, the top two bits
  of the first set, the other fourteen the offset pointed to.
\<close>

datatype rrname = LabelForm "label list" | PointerForm nat

fun wire_name :: "rrname \<Rightarrow> byte list" where
  "wire_name (LabelForm ls) = wire_labels ls"
| "wire_name (PointerForm p) = [0xC0 OR of_nat (p div 256), of_nat p]"

fun wf_name :: "rrname \<Rightarrow> bool" where
  "wf_name (LabelForm ls) = wf_labels ls"
| "wf_name (PointerForm p) = (p < 16384)"

record svcparam =
  sp_key :: "16 word"
  sp_value :: "byte list"

definition wire_param :: "svcparam \<Rightarrow> byte list" where
  "wire_param p = be16 (sp_key p) @ be16 (of_nat (length (sp_value p))) @ sp_value p"

definition wire_params :: "svcparam list \<Rightarrow> byte list" where
  "wire_params ps = concat (map wire_param ps)"

text \<open>
  The data of a record: of an HTTPS record (priority, target name, SvcParams), or the
  uninterpreted bytes of a record of another type.
\<close>

datatype rdata = HTTPSData "16 word" "label list" "svcparam list" | OpaqueData "16 word" "byte list"

fun rdata_type :: "rdata \<Rightarrow> 16 word" where
  "rdata_type (HTTPSData priority target params) = 65"
| "rdata_type (OpaqueData t raw) = t"

fun wire_rdata :: "rdata \<Rightarrow> byte list" where
  "wire_rdata (HTTPSData priority target params) =
     be16 priority @ wire_labels target @ wire_params params"
| "wire_rdata (OpaqueData t raw) = raw"

fun wf_rdata :: "rdata \<Rightarrow> bool" where
  "wf_rdata (HTTPSData priority target params) =
     (wf_labels target \<and> list_all (\<lambda>p. length (sp_value p) < 65536) params
      \<and> length (wire_rdata (HTTPSData priority target params)) < 65536)"
| "wf_rdata (OpaqueData t raw) = (t \<noteq> 65 \<and> length raw < 65536)"

record rr =
  rr_name :: rrname
  rr_class :: "16 word"
  rr_ttl :: "32 word"
  rr_data :: rdata

definition wire_rr :: "rr \<Rightarrow> byte list" where
  "wire_rr r =
     wire_name (rr_name r) @ be16 (rdata_type (rr_data r)) @ be16 (rr_class r) @ be32 (rr_ttl r)
     @ be16 (of_nat (length (wire_rdata (rr_data r)))) @ wire_rdata (rr_data r)"

definition wf_rr :: "rr \<Rightarrow> bool" where
  "wf_rr r = (wf_name (rr_name r) \<and> wf_rdata (rr_data r))"

text \<open>
  A response: the header fields, the one echoed question, the answers, and the bytes of
  the authority and additional sections, which the parser never reaches.
\<close>

record dns_response =
  msg_id :: "16 word"
  msg_flags :: "16 word"
  msg_qname :: "label list"
  msg_qtype :: "16 word"
  msg_qclass :: "16 word"
  msg_answers :: "rr list"
  msg_nscount :: "16 word"
  msg_arcount :: "16 word"
  msg_rest :: "byte list"

definition wire_answers :: "rr list \<Rightarrow> byte list" where
  "wire_answers rs = concat (map wire_rr rs)"

definition wire_response :: "dns_response \<Rightarrow> byte list" where
  "wire_response m =
     be16 (msg_id m) @ be16 (msg_flags m) @ be16 1 @ be16 (of_nat (length (msg_answers m)))
     @ be16 (msg_nscount m) @ be16 (msg_arcount m)
     @ wire_labels (msg_qname m) @ be16 (msg_qtype m) @ be16 (msg_qclass m)
     @ wire_answers (msg_answers m) @ msg_rest m"

text \<open>The response up to the first answer: header and question.\<close>

definition wire_prelude :: "dns_response \<Rightarrow> byte list" where
  "wire_prelude m =
     be16 (msg_id m) @ be16 (msg_flags m) @ be16 1 @ be16 (of_nat (length (msg_answers m)))
     @ be16 (msg_nscount m) @ be16 (msg_arcount m)
     @ wire_labels (msg_qname m) @ be16 (msg_qtype m) @ be16 (msg_qclass m)"

definition wf_response :: "dns_response \<Rightarrow> bool" where
  "wf_response m =
     (wf_labels (msg_qname m) \<and> length (msg_answers m) < 65536 \<and> list_all wf_rr (msg_answers m))"

text \<open>An answer carries an ECH value when it is an HTTPS record with a SvcParam of key 5.\<close>

fun carries_ech :: "rr \<Rightarrow> bool" where
  "carries_ech r =
     (case rr_data r of
        HTTPSData priority target params \<Rightarrow> list_ex (\<lambda>p. sp_key p = 5) params
      | OpaqueData t raw \<Rightarrow> False)"

section \<open>The ECH store and the dialer (websocket.go)\<close>

subsection \<open>Error messages\<close>

text \<open>
  Go strings are byte strings; the messages of the source are UTF-8, written here byte by
  byte where they leave ASCII. \<open>strings.Contains\<close> compares bytes.
\<close>

fun Contains :: "string \<Rightarrow> string \<Rightarrow> bool" where
  "Contains [] substr = (substr = [])"
| "Contains (c # s) substr = (prefix substr (c # s) \<or> Contains s substr)"

function digits :: "nat \<Rightarrow> string" where
  "digits n = (if n < 10 then [char_of (48 + n)] else digits (n div 10) @ [char_of (48 + n mod 10)])"
  by pat_completeness auto
termination
  by (relation "measure id") auto

declare digits.simps [simp del]

text \<open>The verb \<open>%d\<close> of \<open>fmt\<close> on an \<open>int\<close>.\<close>

definition Itoa :: "int \<Rightarrow> string" where
  "Itoa i = (if i < 0 then CHR ''-'' # digits (nat (- i)) else digits (nat i))"

text \<open>The two substrings by which \<open>DialWithECH\<close> recognises a failure of \<open>BuildTLSConfig\<close>
  as ECH-related: "ECH" followed by U+914D U+7F6E (configuration), and U+672A U+627E U+5230
  (not found) followed by "ECH".\<close>

definition substrECHConfig :: string where
  "substrECHConfig = ''ECH'' @ [CHR 0xE9, CHR 0x85, CHR 0x8D, CHR 0xE7, CHR 0xBD, CHR 0xAE]"

definition substrECHNotFound :: string where
  "substrECHNotFound = [CHR 0xE6, CHR 0x9C, CHR 0xAA, CHR 0xE6, CHR 0x89, CHR 0xBE, CHR 0xE5, CHR 0x88, CHR 0xB0] @ ''ECH''"

text \<open>\<open>err.Error()\<close>; \<open>%v\<close> of a nil error prints \<open><nil>\<close>.\<close>

fun Error :: "error \<Rightarrow> string" where
  "Error ErrResponseTooShort =
     [CHR 0xE5, CHR 0x93, CHR 0x8D, CHR 0xE5, CHR 0xBA, CHR 0x94, CHR 0xE8, CHR 0xBF, CHR 0x87,
       CHR 0xE7, CHR 0x9F, CHR 0xAD]"
| "Error ErrNoAnswerRecords =
     [CHR 0xE6, CHR 0x97, CHR 0xA0, CHR 0xE5, CHR 0xBA, CHR 0x94, CHR 0xE7, CHR 0xAD, CHR 0x94,
       CHR 0xE8, CHR 0xAE, CHR 0xB0, CHR 0xE5, CHR 0xBD, CHR 0x95]"
| "Error (ErrDNSQueryFailed err) =
     ''DNS'' @ [CHR 0xE6, CHR 0x9F, CHR 0xA5, CHR 0xE8, CHR 0xAF, CHR 0xA2, CHR 0xE5, CHR 0xA4,
       CHR 0xB1, CHR 0xE8, CHR 0xB4, CHR 0xA5] @ '': '' @ Error err"
| "Error ErrECHParamNotFound =
     [CHR 0xE6, CHR 0x9C, CHR 0xAA, CHR 0xE6, CHR 0x89, CHR 0xBE, CHR 0xE5, CHR 0x88,
       CHR 0xB0] @ ''ECH'' @ [CHR 0xE5, CHR 0x8F, CHR 0x82, CHR 0xE6, CHR 0x95, CHR 0xB0]"
| "Error (ErrECHDecodeFailed err) =
     ''ECH'' @ [CHR 0xE8, CHR 0xA7, CHR 0xA3, CHR 0xE7, CHR 0xA0, CHR 0x81, CHR 0xE5, CHR 0xA4,
       CHR 0xB1, CHR 0xE8, CHR 0xB4, CHR 0xA5] @ '': '' @ Error err"
| "Error ErrECHNotLoaded =
     ''ECH'' @ [CHR 0xE9, CHR 0x85, CHR 0x8D, CHR 0xE7, CHR 0xBD, CHR 0xAE, CHR 0xE6, CHR 0x9C,
       CHR 0xAA, CHR 0xE5, CHR 0x8A, CHR 0xA0, CHR 0xE8, CHR 0xBD, CHR 0xBD]"
| "Error (ErrRootsFailed err) =
     [CHR 0xE5, CHR 0x8A, CHR 0xA0, CHR 0xE8, CHR 0xBD, CHR 0xBD, CHR 0xE7, CHR 0xB3, CHR 0xBB,
       CHR 0xE7, CHR 0xBB, CHR 0x9F, CHR 0xE6, CHR 0xA0, CHR 0xB9, CHR 0xE8, CHR 0xAF, CHR 0x81,
       CHR 0xE4, CHR 0xB9, CHR 0xA6, CHR 0xE5, CHR 0xA4, CHR 0xB1, CHR 0xE8, CHR 0xB4,
       CHR 0xA5] @ '': '' @ Error err"
| "Error (ErrInvalidDoHURL err) =
     [CHR 0xE6, CHR 0x97, CHR 0xA0, CHR 0xE6, CHR 0x95, CHR 0x88, CHR 0xE7, CHR 0x9A,
       CHR 0x84] @ ''DoH URL: '' @ Error err"
| "Error (ErrCreateRequest err) =
     [CHR 0xE5, CHR 0x88, CHR 0x9B, CHR 0xE5, CHR 0xBB, CHR 0xBA, CHR 0xE8, CHR 0xAF, CHR 0xB7,
       CHR 0xE6, CHR 0xB1, CHR 0x82, CHR 0xE5, CHR 0xA4, CHR 0xB1, CHR 0xE8, CHR 0xB4,
       CHR 0xA5] @ '': '' @ Error err"
| "Error (ErrDoHRequest err) =
     ''DoH'' @ [CHR 0xE8, CHR 0xAF, CHR 0xB7, CHR 0xE6, CHR 0xB1, CHR 0x82, CHR 0xE5, CHR 0xA4,
       CHR 0xB1, CHR 0xE8, CHR 0xB4, CHR 0xA5] @ '': '' @ Error err"
| "Error (ErrDoHStatus code) =
     ''DoH'' @ [CHR 0xE6, CHR 0x9C, CHR 0x8D, CHR 0xE5, CHR 0x8A, CHR 0xA1, CHR 0xE5, CHR 0x99,
       CHR 0xA8, CHR 0xE8, CHR 0xBF, CHR 0x94, CHR 0xE5, CHR 0x9B, CHR 0x9E, CHR 0xE9, CHR 0x94,
       CHR 0x99, CHR 0xE8, CHR 0xAF, CHR 0xAF] @ '': '' @ Itoa code"
| "Error (ErrReadDoH err) =
     [CHR 0xE8, CHR 0xAF, CHR 0xBB, CHR 0xE5, CHR 0x8F, CHR 0x96] @ ''DoH'' @ [CHR 0xE5,
       CHR 0x93, CHR 0x8D, CHR 0xE5, CHR 0xBA, CHR 0x94, CHR 0xE5, CHR 0xA4, CHR 0xB1, CHR 0xE8,
       CHR 0xB4, CHR 0xA5] @ '': '' @ Error err"
| "Error ErrAddrEmpty =
     [CHR 0xE6, CHR 0x9C, CHR 0x8D, CHR 0xE5, CHR 0x8A, CHR 0xA1, CHR 0xE5, CHR 0x99, CHR 0xA8,
       CHR 0xE5, CHR 0x9C, CHR 0xB0, CHR 0xE5, CHR 0x9D, CHR 0x80, CHR 0xE4, CHR 0xB8, CHR 0xBA,
       CHR 0xE7, CHR 0xA9, CHR 0xBA]"
| "Error ErrAddrFormat =
     [CHR 0xE6, CHR 0x9C, CHR 0x8D, CHR 0xE5, CHR 0x8A, CHR 0xA1, CHR 0xE5, CHR 0x99, CHR 0xA8,
       CHR 0xE5, CHR 0x9C, CHR 0xB0, CHR 0xE5, CHR 0x9D, CHR 0x80, CHR 0xE6, CHR 0xA0, CHR 0xBC,
       CHR 0xE5, CHR 0xBC, CHR 0x8F, CHR 0xE9, CHR 0x94, CHR 0x99, CHR 0xE8, CHR 0xAF, CHR 0xAF]"
| "Error (ErrAddrInvalid err) =
     [CHR 0xE6, CHR 0x97, CHR 0xA0, CHR 0xE6, CHR 0x95, CHR 0x88, CHR 0xE7, CHR 0x9A, CHR 0x84,
       CHR 0xE6, CHR 0x9C, CHR 0x8D, CHR 0xE5, CHR 0x8A, CHR 0xA1, CHR 0xE5, CHR 0x99, CHR 0xA8,
       CHR 0xE5, CHR 0x9C, CHR 0xB0, CHR 0xE5, CHR 0x9D, CHR 0x80, CHR 0xE6, CHR 0xA0, CHR 0xBC,
       CHR 0xE5, CHR 0xBC, CHR 0x8F] @ '': ''
     @ (case err of None \<Rightarrow> ''<nil>'' | Some e \<Rightarrow> Error e)"
| "Error (ErrParseAddr err) =
     [CHR 0xE8, CHR 0xA7, CHR 0xA3, CHR 0xE6, CHR 0x9E, CHR 0x90, CHR 0xE6, CHR 0x9C, CHR 0x8D,
       CHR 0xE5, CHR 0x8A, CHR 0xA1, CHR 0xE5, CHR 0x99, CHR 0xA8, CHR 0xE5, CHR 0x9C, CHR 0xB0,
       CHR 0xE5, CHR 0x9D, CHR 0x80, CHR 0xE5, CHR 0xA4, CHR 0xB1, CHR 0xE8, CHR 0xB4,
       CHR 0xA5] @ '': '' @ Error err"
| "Error (ErrBuildTLS err) =
     [CHR 0xE6, CHR 0x9E, CHR 0x84, CHR 0xE5, CHR 0xBB, CHR 0xBA] @ ''TLS'' @ [CHR 0xE9,
       CHR 0x85, CHR 0x8D, CHR 0xE7, CHR 0xBD, CHR 0xAE, CHR 0xE5, CHR 0xA4, CHR 0xB1, CHR 0xE8,
       CHR 0xB4, CHR 0xA5] @ '': '' @ Error err"
| "Error (ErrWSDial err) =
     ''WebSocket'' @ [CHR 0xE8, CHR 0xBF, CHR 0x9E, CHR 0xE6, CHR 0x8E, CHR 0xA5, CHR 0xE5,
       CHR 0xA4, CHR 0xB1, CHR 0xE8, CHR 0xB4, CHR 0xA5] @ '': '' @ Error err"
| "Error (ErrMaxRetries maxRetries lastErr) =
     [CHR 0xE8, CHR 0xBF, CHR 0x9E, CHR 0xE6, CHR 0x8E, CHR 0xA5, CHR 0xE5, CHR 0xA4, CHR 0xB1,
       CHR 0xE8, CHR 0xB4, CHR 0xA5, CHR 0xEF, CHR 0xBC, CHR 0x8C, CHR 0xE5, CHR 0xB7, CHR 0xB2,
       CHR 0xE8, CHR 0xBE, CHR 0xBE, CHR 0xE6, CHR 0x9C, CHR 0x80, CHR 0xE5, CHR 0xA4, CHR 0xA7,
       CHR 0xE9, CHR 0x87, CHR 0x8D, CHR 0xE8, CHR 0xAF, CHR 0x95, CHR 0xE6, CHR 0xAC, CHR 0xA1,
       CHR 0xE6, CHR 0x95, CHR 0xB0] @ ''(''
     @ Itoa maxRetries @ ''): '' @ (case lastErr of None \<Rightarrow> ''<nil>'' | Some e \<Rightarrow> Error e)"
| "Error (ErrExternal msg) = msg"

subsection \<open>The store\<close>

text \<open>
  \<open>ECHManager\<close>: the lock \<open>echListMu\<close> has no counterpart, the methods are modelled as
  atomic. A nil \<open>echList\<close> is the empty list (the source only takes its length).
\<close>

record ECHManager =
  echList :: "byte list"
  echDomain :: string
  dnsServer :: string

definition NewECHManager :: "string \<Rightarrow> string \<Rightarrow> ECHManager" where
  "NewECHManager echDomain' dnsServer' =
     \<lparr>echList = [], echDomain = echDomain', dnsServer = dnsServer'\<rparr>"

text \<open>
  What the network does in one \<open>queryDoH\<close>: \<open>url.Parse\<close> fails, \<open>http.NewRequest\<close> fails,
  \<open>client.Do\<close> fails, or a response arrives with a status code and a body that
  \<open>io.ReadAll\<close> reads or fails to read. The request itself (\<open>buildDNSQuery\<close> and the URL)
  only reaches the network, which is a parameter: a function from the domain and the DoH
  URL to the outcome.
\<close>

datatype doh_exchange =
    UrlParseFails error
  | NewRequestFails error
  | DoFails error
  | Responded int "error + byte list"

type_synonym network = "string \<Rightarrow> string \<Rightarrow> doh_exchange"

definition queryDoH :: "network \<Rightarrow> string \<Rightarrow> string \<Rightarrow> (string \<times> error option) option" where
  "queryDoH net domain dohURL =
     (case net domain dohURL of
        UrlParseFails err \<Rightarrow> Some ([], Some (ErrInvalidDoHURL err))
      | NewRequestFails err \<Rightarrow> Some ([], Some (ErrCreateRequest err))
      | DoFails err \<Rightarrow> Some ([], Some (ErrDoHRequest err))
      | Responded StatusCode body \<Rightarrow>
          if StatusCode \<noteq> 200 then Some ([], Some (ErrDoHStatus StatusCode))
          else (case body of
                  Inl err \<Rightarrow> Some ([], Some (ErrReadDoH err))
                | Inr body \<Rightarrow> parseDNSResponse body))"

definition queryHTTPSRecord :: "network \<Rightarrow> string \<Rightarrow> string \<Rightarrow> (string \<times> error option) option" where
  "queryHTTPSRecord net domain dnsServer' =
     (let dohURL = dnsServer';
          dohURL = (if \<not> prefix ''https://'' dohURL \<and> \<not> prefix ''http://'' dohURL
                    then ''https://'' @ dohURL else dohURL)
      in queryDoH net domain dohURL)"

text \<open>
  \<open>Prepare\<close> returns the error (\<open>None\<close> for nil) and the manager after the call; the outer
  \<open>option\<close> is the panic of the parser. \<open>base64.StdEncoding.DecodeString\<close> of the standard
  library is the parameter \<open>DecodeString\<close>.
\<close>

type_synonym decoder = "string \<Rightarrow> error + byte list"

definition Prepare :: "decoder \<Rightarrow> network \<Rightarrow> ECHManager \<Rightarrow> (error option \<times> ECHManager) option" where
  "Prepare DecodeString net m =
     (case queryHTTPSRecord net (echDomain m) (dnsServer m) of
        None \<Rightarrow> None
      | Some (echBase64, Some err) \<Rightarrow> Some (Some (ErrDNSQueryFailed err), m)
      | Some (echBase64, None) \<Rightarrow>
          if echBase64 = [] then Some (Some ErrECHParamNotFound, m)
          else
            (case DecodeString echBase64 of
               Inl err \<Rightarrow> Some (Some (ErrECHDecodeFailed err), m)
             | Inr raw \<Rightarrow> Some (None, m\<lparr>echList := raw\<rparr>)))"

definition GetECHList :: "ECHManager \<Rightarrow> error + byte list" where
  "GetECHList m = (if length (echList m) = 0 then Inl ErrECHNotLoaded else Inr (echList m))"

definition Refresh :: "decoder \<Rightarrow> network \<Rightarrow> ECHManager \<Rightarrow> (error option \<times> ECHManager) option" where
  "Refresh DecodeString net m = Prepare DecodeString net m"

text \<open>A run of \<open>Prepare\<close> calls, one for each state of the network, with their results.\<close>

fun Prepares :: "decoder \<Rightarrow> network list \<Rightarrow> ECHManager \<Rightarrow> (error option list \<times> ECHManager) option" where
  "Prepares DecodeString [] m = Some ([], m)"
| "Prepares DecodeString (net # nets) m =
     (case Prepare DecodeString net m of
        None \<Rightarrow> None
      | Some (r, m') \<Rightarrow>
          (case Prepares DecodeString nets m' of
             None \<Rightarrow> None
           | Some (rs, m'') \<Rightarrow> Some (r # rs, m'')))"

text \<open>
  The TLS configuration: the fields \<open>BuildTLSConfig\<close> sets (the rejection hook always
  returns the error "server rejected ECH"; the root pool is what \<open>x509.SystemCertPool\<close> gave,
  here a name).
\<close>

record tls_config =
  MinVersion :: nat
  ServerName :: string
  EncryptedClientHelloConfigList :: "byte list"
  RootCAs :: string

definition VersionTLS13 :: nat where
  "VersionTLS13 = 0x0304"

definition BuildTLSConfig :: "(error + string) \<Rightarrow> string \<Rightarrow> ECHManager \<Rightarrow> error + tls_config" where
  "BuildTLSConfig SystemCertPool serverName m =
     (case GetECHList m of
        Inl err \<Rightarrow> Inl err
      | Inr echBytes \<Rightarrow>
          (case SystemCertPool of
             Inl err \<Rightarrow> Inl (ErrRootsFailed err)
           | Inr roots \<Rightarrow>
               Inr \<lparr>MinVersion = VersionTLS13, ServerName = serverName,
                    EncryptedClientHelloConfigList = echBytes, RootCAs = roots\<rparr>))"

subsection \<open>The dialer\<close>

record WebSocketClient =
  serverAddr :: string
  token :: string
  serverIP :: string

text \<open>\<open>strings.Index(addr, "/")\<close>: the index of the first slash, or -1.\<close>

definition IndexSlash :: "string \<Rightarrow> int" where
  "IndexSlash addr =
     (if CHR ''/'' \<in> set addr then int (length (takeWhile (\<lambda>c. c \<noteq> CHR ''/'') addr)) else - 1)"

text \<open>\<open>net.SplitHostPort\<close> of the standard library is the parameter \<open>SplitHostPort\<close>.\<close>

type_synonym splitter = "string \<Rightarrow> error + (string \<times> string)"

definition ParseServerAddr :: "splitter \<Rightarrow> WebSocketClient \<Rightarrow> error + (string \<times> string \<times> string)" where
  "ParseServerAddr SplitHostPort c =
     (if serverAddr c = [] then Inl ErrAddrEmpty
      else
        let path = ''/'';
            addr = serverAddr c;
            slashIdx = IndexSlash addr;
            path = (if slashIdx \<noteq> - 1 \<and> slashIdx < int (length addr) then drop (nat slashIdx) addr
                    else path);
            addr = (if slashIdx \<noteq> - 1 then take (nat slashIdx) addr else addr)
        in if addr = [] then Inl ErrAddrFormat
           else
             (case SplitHostPort addr of
                Inl err \<Rightarrow> Inl (ErrAddrInvalid (Some err))
              | Inr (host, port) \<Rightarrow>
                  if host = [] \<or> port = [] then Inl (ErrAddrInvalid None)
                  else Inr (host, port, path)))"

text \<open>
  What \<open>DialWithECH\<close> does to the world is recorded in a trace: each \<open>Refresh\<close> with the
  error it returned (which the source drops), each \<open>time.Sleep\<close> with its duration in
  milliseconds, each \<open>dialer.Dial\<close> with its URL and subprotocols. \<open>log.Printf\<close> is left
  out. The state threaded through the loop is the manager and the trace.
\<close>

datatype dial_event = Refreshed "error option" | Slept nat | Dialed string "string list"

record dial_state =
  manager :: ECHManager
  trace :: "dial_event list"

text \<open>
  The environment of one call, by attempt number (each is used at most once in an
  attempt): what \<open>x509.SystemCertPool\<close> returns, what the network does in the attempt's
  \<open>Refresh\<close>, and what \<open>dialer.Dial\<close> returns (a connection, here a number). The
  \<open>NetDial\<close> override for \<open>serverIP\<close> acts inside that dial, on the TCP destination only.
\<close>

record environment =
  DecodeString :: decoder
  SplitHostPort :: splitter
  SystemCertPool :: "int \<Rightarrow> error + string"
  doh :: "int \<Rightarrow> network"
  Dial :: "int \<Rightarrow> error + nat"

definition refreshAndSleep :: "environment \<Rightarrow> int \<Rightarrow> nat \<Rightarrow> dial_state \<Rightarrow> dial_state option" where
  "refreshAndSleep E attempt ms s =
     (case Refresh (DecodeString E) (doh E attempt) (manager s) of
        None \<Rightarrow> None
      | Some (r, m') \<Rightarrow> Some \<lparr>manager = m', trace = trace s @ [Refreshed r, Slept ms]\<rparr>)"

definition Subprotocols :: "WebSocketClient \<Rightarrow> string list" where
  "Subprotocols c = (if token c = [] then [] else [token c])"

text \<open>
  The loop \<open>for attempt := 1; attempt <= maxRetries; attempt++\<close> with the statement after
  it; the result is what \<open>DialWithECH\<close> returns and the state it leaves (\<open>None\<close>: panic).
  \<open>maxRetries\<close> and \<open>attempt\<close> are Go \<open>int\<close>s, here \<open>int\<close>: the counter would have
  to pass 2^63 to wrap around.
\<close>

function attemptLoop ::
  "environment \<Rightarrow> WebSocketClient \<Rightarrow> string \<Rightarrow> string \<Rightarrow> int \<Rightarrow> int \<Rightarrow> error option \<Rightarrow> dial_state
   \<Rightarrow> ((error + nat) \<times> dial_state) option" where
  "attemptLoop E c host wsURL maxRetries attempt lastErr s =
     (if attempt \<le> maxRetries then
        (case BuildTLSConfig (SystemCertPool E attempt) host (manager s) of
           Inl tlsErr \<Rightarrow>
             let lastErr = Some tlsErr
             in if attempt < maxRetries \<and>
                   (Contains (Error tlsErr) substrECHConfig \<or> Contains (Error tlsErr) substrECHNotFound)
                then
                  (case refreshAndSleep E attempt 500 s of
                     None \<Rightarrow> None
                   | Some s' \<Rightarrow> attemptLoop E c host wsURL maxRetries (attempt + 1) lastErr s')
                else Some (Inl (ErrBuildTLS tlsErr), s)
         | Inr tlsCfg \<Rightarrow>
             let s = s\<lparr>trace := trace s @ [Dialed wsURL (Subprotocols c)]\<rparr>
             in (case Dial E attempt of
                   Inl dialErr \<Rightarrow>
                     let lastErr = Some dialErr
                     in if attempt < maxRetries \<and>
                           (Contains (Error dialErr) ''ECH'' \<or> Contains (Error dialErr) ''encrypted'')
                        then
                          (case refreshAndSleep E attempt 1000 s of
                             None \<Rightarrow> None
                           | Some s' \<Rightarrow> attemptLoop E c host wsURL maxRetries (attempt + 1) lastErr s')
                        else Some (Inl (ErrWSDial dialErr), s)
                 | Inr wsConn \<Rightarrow> Some (Inr wsConn, s)))
      else Some (Inl (ErrMaxRetries maxRetries lastErr), s))"
  by pat_completeness auto
termination
  by (relation "measure (\<lambda>(E, c, host, wsURL, maxRetries, attempt, lastErr, s). nat (maxRetries + 1 - attempt))")
    auto

declare attemptLoop.simps [simp del]

definition DialWithECH ::
  "environment \<Rightarrow> WebSocketClient \<Rightarrow> int \<Rightarrow> dial_state \<Rightarrow> ((error + nat) \<times> dial_state) option" where
  "DialWithECH E c maxRetries s =
     (case ParseServerAddr (SplitHostPort E) c of
        Inl err \<Rightarrow> Some (Inl (ErrParseAddr err), s)
      | Inr (host, port, path) \<Rightarrow>
          let wsURL = ''wss://'' @ host @ '':'' @ port @ path
          in attemptLoop E c host wsURL maxRetries 1 None s)"

section \<open>The relay session (_worker.js)\<close>

subsection \<open>JavaScript values\<close>

text \<open>
  A JavaScript string is a \<open>string\<close>, one \<open>char\<close> for each code unit (the strings of
  the claims are ASCII; code units from 256 on have no counterpart here). A number that can
  be \<open>NaN\<close> is an \<open>int option\<close>; numbers are exact integers, which is what JavaScript
  computes up to 2^53 (beyond, it rounds to the nearest double and the model does not; no
  port number is that large).
\<close>

datatype js_value = JSString string | JSNumber int

definition isSeparator :: "char \<Rightarrow> bool" where
  "isSeparator c = (c = CHR '':'' \<or> c = CHR '','' \<or> c = CHR '';'')"

text \<open>\<open>addr.split(/[:,;]/)\<close>: the pieces between the separators, at least one piece.\<close>

fun splitAt :: "(char \<Rightarrow> bool) \<Rightarrow> string \<Rightarrow> string list" where
  "splitAt sep [] = [[]]"
| "splitAt sep (c # cs) =
     (if sep c then [] # splitAt sep cs
      else (case splitAt sep cs of [] \<Rightarrow> [[c]] | p # ps \<Rightarrow> (c # p) # ps))"

text \<open>\<open>addr.indexOf(']')\<close> where the character occurs.\<close>

definition indexOf :: "string \<Rightarrow> char \<Rightarrow> nat" where
  "indexOf s c = length (takeWhile (\<lambda>x. x \<noteq> c) s)"

text \<open>
  \<open>parseInt(string, 10)\<close> (ECMAScript 19.2.5): leading white space is dropped, a sign is
  read, then the longest prefix of decimal digits; without a digit the result is \<open>NaN\<close>.
  A number argument is first converted to its decimal string.
\<close>

definition isWhiteSpace :: "char \<Rightarrow> bool" where
  "isWhiteSpace c = (c \<in> {CHR 0x09, CHR 0x0A, CHR 0x0B, CHR 0x0C, CHR 0x0D, CHR 0x20, CHR 0xA0})"

definition isDigit :: "char \<Rightarrow> bool" where
  "isDigit c = (48 \<le> (of_char c :: nat) \<and> (of_char c :: nat) \<le> 57)"

definition digitValue :: "char \<Rightarrow> nat" where
  "digitValue c = of_char c - 48"

definition ToString :: "js_value \<Rightarrow> string" where
  "ToString v = (case v of JSString s \<Rightarrow> s | JSNumber n \<Rightarrow> Itoa n)"

definition parseInt :: "js_value \<Rightarrow> int option" where
  "parseInt v =
     (let S = dropWhile isWhiteSpace (ToString v);
          sign = (if S \<noteq> [] \<and> hd S = CHR ''-'' then - 1 else 1 :: int);
          S = (if S \<noteq> [] \<and> (hd S = CHR ''+'' \<or> hd S = CHR ''-'') then tl S else S);
          Z = takeWhile isDigit S
      in if Z = [] then None
         else Some (sign * int (foldl (\<lambda>n c. 10 * n + digitValue c) 0 Z)))"

text \<open>\<open>toLowerCase\<close> on code units below 256: A-Z and the capital letters of Latin-1.\<close>

definition toLowerCase :: "string \<Rightarrow> string" where
  "toLowerCase s =
     map (\<lambda>c. let n = (of_char c :: nat)
              in if (65 \<le> n \<and> n \<le> 90) \<or> (192 \<le> n \<and> n \<le> 222 \<and> n \<noteq> 215) then char_of (n + 32) else c) s"

text \<open>\<open>encoder.encode\<close> (UTF-8) on code units below 256.\<close>

definition encode :: "string \<Rightarrow> byte list" where
  "encode s =
     concat (map (\<lambda>c. let n = (of_char c :: nat)
                      in if n < 128 then [of_nat n] else [of_nat (192 + n div 64), of_nat (128 + n mod 64)]) s)"

subsection \<open>parseAddress\<close>

record address =
  host :: string
  port :: int

definition parseAddress :: "string \<Rightarrow> address" where
  "parseAddress addr =
     (let (host', port') =
            (if prefix ''['' addr \<and> CHR '']'' \<in> set addr then
               let closeBracketIndex = indexOf addr CHR '']'';
                   ipv6 = take (closeBracketIndex + 1) addr;
                   afterBracket = drop (closeBracketIndex + 1) addr;
                   port' = (if prefix '':'' afterBracket then JSString (drop 1 afterBracket)
                            else JSNumber 443)
               in (ipv6, port')
             else
               (case splitAt isSeparator addr of
                  [] \<Rightarrow> ([], JSNumber 443)
                | [host'] \<Rightarrow> (host', JSNumber 443)
                | host' # port' # rest \<Rightarrow> (host', JSString port')));
          parsedPort = parseInt port';
          finalPort = (case parsedPort of None \<Rightarrow> 443 | Some n \<Rightarrow> n)
      in \<lparr>host = host', port = finalPort\<rparr>)"

subsection \<open>The state of a session\<close>

text \<open>
  The variables of \<open>handleSession\<close>, the \<open>readyState\<close> of its WebSocket (which the run
  time sets), where the pump waits, and what the session has done to the outside, in
  order. A socket is the number of the \<open>connect\<close> call that made it; a reader or writer
  carries the socket it belongs to; \<open>None\<close> is \<open>undefined\<close> or \<open>null\<close>.
\<close>

datatype frame = Text string | Binary "byte list"

datatype effect =
    SocketOpened nat string int      \<comment> \<open>connect({hostname, port})\<close>
  | WriterAcquired nat               \<comment> \<open>remoteSocket.writable.getWriter()\<close>
  | ReaderAcquired nat               \<comment> \<open>remoteSocket.readable.getReader()\<close>
  | WriterWrote nat "byte list"      \<comment> \<open>remoteWriter.write(bytes)\<close>
  | WriterReleased nat               \<comment> \<open>remoteWriter.releaseLock()\<close>
  | ReaderReleased nat               \<comment> \<open>remoteReader.releaseLock()\<close>
  | SocketClosed nat                 \<comment> \<open>remoteSocket.close()\<close>
  | WsSent frame                     \<comment> \<open>webSocket.send(...)\<close>
  | WsClosed nat string              \<comment> \<open>ws.close(code, reason)\<close>
  | TimerSet nat                     \<comment> \<open>setTimeout(resolve, ms)\<close>
  | PumpRestarted                    \<comment> \<open>pumpRemoteToWebSocket() called from its own catch\<close>

datatype pump_wait = NoPump | AwaitRead | AwaitDelay

record session =
  remoteSocket :: "nat option"
  remoteWriter :: "nat option"
  remoteReader :: "nat option"
  isClosed :: bool
  isConnecting :: bool
  connectionAttempts :: nat
  readyState :: nat
  sockets :: nat
  pump :: pump_wait
  effects :: "effect list"

definition handleSession :: "nat \<Rightarrow> session" where
  "handleSession wsReadyState =
     \<lparr>remoteSocket = None, remoteWriter = None, remoteReader = None, isClosed = False,
      isConnecting = False, connectionAttempts = 0, readyState = wsReadyState, sockets = 0,
      pump = NoPump, effects = []\<rparr>"

definition does :: "effect \<Rightarrow> session \<Rightarrow> session" where
  "does e s = s\<lparr>effects := effects s @ [e]\<rparr>"

text \<open>
  \<open>try { x?.releaseLock(); } catch { }\<close> and its like: the call is made when the handle
  is there, and what it throws is dropped.
\<close>

definition releaseWriter :: "session \<Rightarrow> session" where
  "releaseWriter s = (case remoteWriter s of None \<Rightarrow> s | Some w \<Rightarrow> does (WriterReleased w) s)"

definition releaseReader :: "session \<Rightarrow> session" where
  "releaseReader s = (case remoteReader s of None \<Rightarrow> s | Some r \<Rightarrow> does (ReaderReleased r) s)"

definition closeSocket :: "session \<Rightarrow> session" where
  "closeSocket s = (case remoteSocket s of None \<Rightarrow> s | Some k \<Rightarrow> does (SocketClosed k) s)"

subsection \<open>safeCloseWebSocket and cleanup\<close>

definition safeCloseWebSocket :: "session \<Rightarrow> session" where
  "safeCloseWebSocket s =
     (if readyState s = 1 \<or> readyState s = 2 then does (WsClosed 1000 ''Server closed'') s else s)"

definition cleanup :: "session \<Rightarrow> session" where
  "cleanup s =
     (if isClosed s then s
      else
        let s = s\<lparr>isClosed := True\<rparr>;
            s = s\<lparr>isConnecting := False\<rparr>;
            s = releaseWriter s;
            s = releaseReader s;
            s = closeSocket s;
            s = s\<lparr>remoteWriter := None, remoteReader := None, remoteSocket := None\<rparr>
        in safeCloseWebSocket s)"

subsection \<open>pumpRemoteToWebSocket\<close>

text \<open>
  The pump is an asynchronous function with two places to wait: \<open>await remoteReader.read()\<close>
  and the timer of the restart delay. Each function below is the code between two waits.
  \<open>pumpAfter\<close> is the end of the function, after the \<open>try\<close>:
  \<^verbatim>\<open>if (!isClosed) { try { webSocket.send('CLOSE'); } catch { } cleanup(); }\<close>
\<close>

definition pumpAfter :: "session \<Rightarrow> session" where
  "pumpAfter s =
     (let s = s\<lparr>pump := NoPump\<rparr>
      in if \<not> isClosed s then cleanup (does (WsSent (Text ''CLOSE'')) s) else s)"

text \<open>The head of the loop \<open>while (!isClosed && remoteReader)\<close>, up to the read.\<close>

definition pumpLoop :: "session \<Rightarrow> session" where
  "pumpLoop s =
     (if \<not> isClosed s \<and> remoteReader s \<noteq> None then s\<lparr>pump := AwaitRead\<rparr> else pumpAfter s)"

definition pumpRemoteToWebSocket :: "session \<Rightarrow> session" where
  "pumpRemoteToWebSocket s = pumpLoop s"

text \<open>
  The \<open>catch (err)\<close> of the pump up to its timer:
  \<^verbatim>\<open>if (!isClosed && connectionAttempts < 3) {
      connectionAttempts++;
      try { await new Promise(resolve => setTimeout(resolve, 1000 * connectionAttempts));\<close>
\<close>

definition pumpCatch :: "session \<Rightarrow> session" where
  "pumpCatch s =
     (if \<not> isClosed s \<and> connectionAttempts s < 3 then
        let s = s\<lparr>connectionAttempts := connectionAttempts s + 1\<rparr>;
            s = does (TimerSet (1000 * connectionAttempts s)) s
        in s\<lparr>pump := AwaitDelay\<rparr>
      else pumpAfter s)"

text \<open>
  What \<open>remoteReader.read()\<close> settles to: \<open>{done: true}\<close>, a value (possibly
  \<open>undefined\<close>), or a rejection. \<open>sendThrows\<close> says whether \<open>webSocket.send(value)\<close>
  throws, which lands in the same \<open>catch\<close> as a failed read.
\<close>

datatype read_result = ReadDone | ReadValue "byte list option" | ReadRejects

definition pumpOnRead :: "read_result \<Rightarrow> bool \<Rightarrow> session \<Rightarrow> session" where
  "pumpOnRead r sendThrows s =
     (case r of
        ReadRejects \<Rightarrow> pumpCatch s
      | ReadDone \<Rightarrow> pumpAfter s
      | ReadValue v \<Rightarrow>
          if readyState s \<noteq> 1 then pumpAfter s
          else
            (case v of
               None \<Rightarrow> pumpLoop s
             | Some bytes \<Rightarrow>
                 if length bytes > 0 then
                   let s = does (WsSent (Binary bytes)) s
                   in if sendThrows then pumpCatch s else pumpLoop s
                 else pumpLoop s))"

text \<open>
  After the timer:
  \<^verbatim>\<open>if (remoteSocket?.readable) {
      remoteReader = remoteSocket.readable.getReader();
      pumpRemoteToWebSocket();
      return; }
  } catch { } }\<close>
  \<open>readable\<close> is the truth value of the socket's \<open>readable\<close> property, and
  \<open>getReaderThrows\<close> says whether \<open>getReader()\<close> throws.
\<close>

definition pumpOnDelay :: "bool \<Rightarrow> bool \<Rightarrow> session \<Rightarrow> session" where
  "pumpOnDelay readable getReaderThrows s =
     (case remoteSocket s of
        None \<Rightarrow> pumpAfter s
      | Some k \<Rightarrow>
          if readable then
            if getReaderThrows then pumpAfter s
            else pumpRemoteToWebSocket
                   (does PumpRestarted (does (ReaderAcquired k) (s\<lparr>remoteReader := Some k\<rparr>)))
          else pumpAfter s)"

subsection \<open>connectToRemote\<close>

definition isCFError :: "string \<Rightarrow> bool" where
  "isCFError message =
     (let msg = toLowerCase message
      in Contains msg ''proxy request'' \<or> Contains msg ''cannot connect'' \<or> Contains msg ''cloudflare'')"

text \<open>The message of \<open>new Error(...)\<close> in \<open>connectToRemote\<close>: "already connected or
  connecting" (U+5DF2 U+6709 U+8FDE U+63A5 U+6216 U+6B63 U+5728 U+8FDE U+63A5 U+4E2D), in
  UTF-8 bytes; and of the one in the message listener: "invalid target address".\<close>

definition msgAlreadyConnecting :: string where
  "msgAlreadyConnecting =
     [CHR 0xE5, CHR 0xB7, CHR 0xB2, CHR 0xE6, CHR 0x9C, CHR 0x89, CHR 0xE8, CHR 0xBF, CHR 0x9E,
       CHR 0xE6, CHR 0x8E, CHR 0xA5, CHR 0xE6, CHR 0x88, CHR 0x96, CHR 0xE6, CHR 0xAD, CHR 0xA3,
       CHR 0xE5, CHR 0x9C, CHR 0xA8, CHR 0xE8, CHR 0xBF, CHR 0x9E, CHR 0xE6, CHR 0x8E, CHR 0xA5,
       CHR 0xE4, CHR 0xB8, CHR 0xAD]"

definition msgInvalidTarget :: string where
  "msgInvalidTarget =
     [CHR 0xE6, CHR 0x97, CHR 0xA0, CHR 0xE6, CHR 0x95, CHR 0x88, CHR 0xE7, CHR 0x9A, CHR 0x84,
       CHR 0xE7, CHR 0x9B, CHR 0xAE, CHR 0xE6, CHR 0xA0, CHR 0x87, CHR 0xE5, CHR 0x9C, CHR 0xB0,
       CHR 0xE5, CHR 0x9D, CHR 0x80]"

text \<open>
  How one attempt of the loop ends: at the first statement of its \<open>try\<close> that throws
  (with the message of what is thrown), or not at all.

  \<open>connectToRemote\<close> is first given as it runs when nothing interrupts it: the two
  promises an attempt awaits (\<open>remoteSocket.opened\<close> and the write of the first frame)
  settle before any other event of the session is delivered. The same function cut at its
  awaits, with the events that arrive while it waits, follows under \<^emph>\<open>Handlers that wait\<close>
  (\<open>connectBegin\<close>, \<open>connectResume\<close>, \<open>deliver\<close>); the two are shown to agree on the runs
  without interruption (\<open>uninterrupted_onMessage\<close>, \<open>at_once_run\<close>).
\<close>

datatype attempt_outcome =
    ConnectThrows string
  | OpenedRejects string
  | GetWriterThrows string
  | GetReaderThrows string
  | WriteRejects string
  | SendThrows string
  | Established

text \<open>The \<open>catch (err)\<close> of an attempt, up to its \<open>if\<close>.\<close>

definition attemptCleanup :: "session \<Rightarrow> session" where
  "attemptCleanup s =
     (let s = releaseWriter s;
          s = releaseReader s;
          s = closeSocket s
      in s\<lparr>remoteWriter := None, remoteReader := None, remoteSocket := None\<rparr>)"

text \<open>
  The \<open>try\<close> of an attempt: \<open>Inl (err, s)\<close> when a statement throws \<open>err\<close> in state
  \<open>s\<close>, \<open>Inr s\<close> when the attempt returns.
\<close>

definition attemptTry :: "attempt_outcome \<Rightarrow> string \<Rightarrow> int \<Rightarrow> string \<Rightarrow> session \<Rightarrow> (string \<times> session) + session" where
  "attemptTry outcome attemptHost attemptPort firstFrameData s =
     (case outcome of
        ConnectThrows err \<Rightarrow> Inl (err, s)
      | _ \<Rightarrow>
          let k = sockets s;
              s = does (SocketOpened k attemptHost attemptPort) (s\<lparr>sockets := k + 1, remoteSocket := Some k\<rparr>)
          in (case outcome of
                OpenedRejects err \<Rightarrow> Inl (err, s)
              | GetWriterThrows err \<Rightarrow> Inl (err, s)
              | _ \<Rightarrow>
                  let s = does (WriterAcquired k) (s\<lparr>remoteWriter := Some k\<rparr>)
                  in (case outcome of
                        GetReaderThrows err \<Rightarrow> Inl (err, s)
                      | _ \<Rightarrow>
                          let s = does (ReaderAcquired k) (s\<lparr>remoteReader := Some k\<rparr>);
                              s = (if firstFrameData \<noteq> [] then does (WriterWrote k (encode firstFrameData)) s
                                   else s)
                          in (case outcome of
                                WriteRejects err \<Rightarrow>
                                  if firstFrameData \<noteq> [] then Inl (err, s)
                                  else
                                    let s = s\<lparr>isConnecting := False\<rparr>;
                                        s = does (WsSent (Text ''CONNECTED'')) s
                                    in Inr (pumpRemoteToWebSocket s)
                              | _ \<Rightarrow>
                                  let s = s\<lparr>isConnecting := False\<rparr>;
                                      s = does (WsSent (Text ''CONNECTED'')) s
                                  in (case outcome of
                                        SendThrows err \<Rightarrow> Inl (err, s)
                                      | _ \<Rightarrow> Inr (pumpRemoteToWebSocket s))))))"

text \<open>
  The loop \<open>for (let i = 0; i < attempts.length; i++)\<close>: \<open>attempts\<close> is \<open>null\<close> for the
  address itself followed by the fallback addresses. \<open>parsed.port\<close> is a number that
  \<open>parseAddress\<close> never leaves \<open>NaN\<close>, and \<open>parseAddress\<close> does not throw on a string,
  so the branches of the source that set the fallback itself with port 443 are never taken.
  The result is the message of the error thrown (\<open>None\<close>: the function returns) and the
  state.
\<close>

fun attemptsLoop ::
  "(nat \<Rightarrow> attempt_outcome) \<Rightarrow> address \<Rightarrow> string \<Rightarrow> nat \<Rightarrow> string option list \<Rightarrow> session
   \<Rightarrow> string option \<times> session" where
  "attemptsLoop outcomes original firstFrameData i [] s = (None, s)"
| "attemptsLoop outcomes original firstFrameData i (a # attempts) s =
     (let (attemptHost, attemptPort) =
            (case a of
               None \<Rightarrow> (host original, port original)
             | Some fallback \<Rightarrow> (let parsed = parseAddress fallback in (host parsed, port parsed)))
      in (case attemptTry (outcomes i) attemptHost attemptPort firstFrameData s of
            Inr s \<Rightarrow> (None, s)
          | Inl (err, s) \<Rightarrow>
              let s = attemptCleanup s
              in if \<not> isCFError err \<or> attempts = [] then (Some err, s)
                 else attemptsLoop outcomes original firstFrameData (i + 1) attempts s))"

definition connectToRemote ::
  "(nat \<Rightarrow> attempt_outcome) \<Rightarrow> string \<Rightarrow> string \<Rightarrow> string \<Rightarrow> session \<Rightarrow> string option \<times> session" where
  "connectToRemote outcomes targetAddr firstFrameData proxyIP s =
     (if isConnecting s \<or> remoteSocket s \<noteq> None then (Some msgAlreadyConnecting, s)
      else
        let s = s\<lparr>isConnecting := True, connectionAttempts := 0\<rparr>;
            original = parseAddress targetAddr;
            fallbackIPs = (if proxyIP \<noteq> [] then [proxyIP] else []);
            attempts = None # map Some fallbackIPs
        in (case attemptsLoop outcomes original firstFrameData 0 attempts s of
              (None, s) \<Rightarrow> (None, s)
            | (Some err, s) \<Rightarrow> (Some err, s\<lparr>isConnecting := False\<rparr>)))"

subsection \<open>The listeners\<close>

text \<open>
  The data of a \<open>message\<close> event: a string, an \<open>ArrayBuffer\<close>, or something else. With the
  event come the outcomes of what its handler awaits: of the attempts of
  \<open>connectToRemote\<close>, and of \<open>remoteWriter.write\<close> (the message of its rejection). In
  \<open>onMessage\<close> the handler is not interrupted: what it awaits settles before the next event.
\<close>

datatype ws_data = StringData string | ArrayBufferData "byte list" | OtherValue

text \<open>The \<open>catch (err)\<close> of the message listener.\<close>

definition onMessageCatch :: "string \<Rightarrow> session \<Rightarrow> session" where
  "onMessageCatch message s = cleanup (does (WsSent (Text (''ERROR:'' @ message))) s)"

definition writerWrite :: "string option \<Rightarrow> byte list \<Rightarrow> session \<Rightarrow> session" where
  "writerWrite rejects bytes s =
     (case remoteWriter s of
        None \<Rightarrow> s
      | Some w \<Rightarrow>
          let s = does (WriterWrote w bytes) s
          in (case rejects of None \<Rightarrow> s | Some err \<Rightarrow> onMessageCatch err s))"

definition piece :: "string list \<Rightarrow> nat \<Rightarrow> string" where
  "piece parts i = (if i < length parts then parts ! i else [])"

definition onMessage :: "ws_data \<Rightarrow> (nat \<Rightarrow> attempt_outcome) \<Rightarrow> string option \<Rightarrow> session \<Rightarrow> session" where
  "onMessage data outcomes writeRejects s =
     (if isClosed s then s
      else
        (case data of
           StringData str \<Rightarrow>
             if prefix ''CONNECT:'' str then
               let parts = splitAt (\<lambda>c. c = CHR ''|'') str;
                   targetAddr = drop 8 (piece parts 0);
                   firstFrameData = piece parts 1;
                   proxyIP = piece parts 2
               in if targetAddr = [] then onMessageCatch msgInvalidTarget s
                  else
                    (case connectToRemote outcomes targetAddr firstFrameData proxyIP s of
                       (None, s) \<Rightarrow> s
                     | (Some err, s) \<Rightarrow> onMessageCatch err s)
             else if prefix ''DATA:'' str then writerWrite writeRejects (encode (drop 5 str)) s
             else if str = ''CLOSE'' then cleanup s
             else s
         | ArrayBufferData bytes \<Rightarrow> writerWrite writeRejects bytes s
         | OtherValue \<Rightarrow> s))"

text \<open>
  The events of a session, each with what the run time decides in it, and the step the
  session takes. \<open>close\<close> and \<open>error\<close> events run \<open>cleanup\<close>; a settled read or an expired
  timer resumes the pump where it waits, and is dropped when the pump does not wait there.
  A message handler runs to its end within its step; \<open>deliver\<close> below is the step of the
  session whose message handlers wait as well.
\<close>

datatype session_event =
    MessageEvent ws_data "nat \<Rightarrow> attempt_outcome" "string option"
  | CloseEvent
  | ErrorEvent
  | ReadSettled read_result bool
  | DelayElapsed bool bool
  | ReadyStateChanged nat

fun step :: "session \<Rightarrow> session_event \<Rightarrow> session" where
  "step s (MessageEvent data outcomes writeRejects) = onMessage data outcomes writeRejects s"
| "step s CloseEvent = cleanup s"
| "step s ErrorEvent = cleanup s"
| "step s (ReadSettled r sendThrows) = (if pump s = AwaitRead then pumpOnRead r sendThrows s else s)"
| "step s (DelayElapsed readable getReaderThrows) =
     (if pump s = AwaitDelay then pumpOnDelay readable getReaderThrows s else s)"
| "step s (ReadyStateChanged n) = s\<lparr>readyState := n\<rparr>"

definition run :: "session \<Rightarrow> session_event list \<Rightarrow> session" where
  "run s evs = foldl step s evs"

subsection \<open>Teardown and restarts\<close>



text \<open>The close operations among the effects, and what one teardown of a session closes.\<close>

fun closing :: "effect \<Rightarrow> bool" where
  "closing (WriterReleased w) = True"
| "closing (ReaderReleased r) = True"
| "closing (SocketClosed k) = True"
| "closing (WsClosed code reason) = True"
| "closing e = False"

definition held :: "session \<Rightarrow> effect list" where
  "held s =
     (case remoteWriter s of None \<Rightarrow> [] | Some w \<Rightarrow> [WriterReleased w])
     @ (case remoteReader s of None \<Rightarrow> [] | Some r \<Rightarrow> [ReaderReleased r])
     @ (case remoteSocket s of None \<Rightarrow> [] | Some k \<Rightarrow> [SocketClosed k])
     @ (if readyState s = 1 \<or> readyState s = 2 then [WsClosed 1000 ''Server closed''] else [])"

text \<open>The number of restarts of the pump among the effects.\<close>

definition restarts :: "effect list \<Rightarrow> nat" where
  "restarts es = length (filter (\<lambda>e. e = PumpRestarted) es)"

text \<open>
  What holds of a session after every event: the restarts are counted by
  \<open>connectionAttempts\<close>, which stays at most 3 and is ahead of them while the pump waits
  for its timer; a closed session has no socket; a session that is open without a socket
  has no pump and has never restarted one.
\<close>

definition session_inv :: "session \<Rightarrow> bool" where
  "session_inv s =
     (restarts (effects s) \<le> connectionAttempts s \<and> connectionAttempts s \<le> 3
      \<and> (pump s = AwaitDelay \<longrightarrow> restarts (effects s) < connectionAttempts s)
      \<and> (isClosed s \<longrightarrow> remoteSocket s = None)
      \<and> (\<not> isClosed s \<and> remoteSocket s = None \<longrightarrow> pump s = NoPump \<and> restarts (effects s) = 0))"

text \<open>A session that is open and has not started a pump: where \<open>connectToRemote\<close> works.\<close>

definition unconnected :: "session \<Rightarrow> bool" where
  "unconnected s =
     (pump s = NoPump \<and> \<not> isClosed s \<and> restarts (effects s) = 0 \<and> connectionAttempts s = 0)"

subsection \<open>Handlers that wait\<close>

text \<open>
  The message listener is an \<open>async\<close> function, and so is \<open>connectToRemote\<close>. An attempt of
  \<open>connectToRemote\<close> waits at \<open>await remoteSocket.opened\<close> and, when there is a first
  frame, at \<open>await remoteWriter.write(...)\<close>; the handler of a \<open>DATA:\<close> or binary message
  waits for its write. While a handler waits, the other events of the session are
  delivered, and the handler goes on from the variables it finds when its promise settles.
  What follows is the session with its message handlers cut at their awaits, as the pump
  already is.

  A piece of a handler either stops at an await, or returns, or throws (with the message of
  what is thrown).
\<close>

datatype attempt_wait = AwaitOpened | AwaitWrite

datatype 'w progress = Waits 'w | Returns | Throws string

text \<open>
  A call of \<open>connectToRemote\<close> that waits keeps its local variables: where it waits,
  \<open>original\<close>, \<open>firstFrameData\<close>, the index \<open>i\<close> of its attempt, and the attempts after
  that one (\<open>i === attempts.length - 1\<close> when there is none).
\<close>

record attempt =
  waitsAt :: attempt_wait
  originalAddr :: address
  firstFrame :: string
  attemptNo :: nat
  fallbacks :: "string option list"

text \<open>
  \<open>remoteSocket.writable\<close> with \<open>remoteSocket\<close> \<open>null\<close> throws a \<open>TypeError\<close>; this is
  its message in V8, the engine of the Workers run time.
\<close>

definition msgNullWritable :: string where
  "msgNullWritable = ''Cannot read properties of null (reading 'writable')''"

text \<open>
  The pieces of the \<open>try\<close> of an attempt. \<open>outcome\<close> is the environment's choice for the
  attempt, read as in \<open>attemptTry\<close>: a piece throws when the outcome names one of its own
  statements. From the head of the \<open>try\<close> to the first await:
  \<^verbatim>\<open>remoteSocket = connect({ hostname: attemptHost, port: attemptPort });
  if (remoteSocket.opened) await remoteSocket.opened;\<close>
\<close>

definition attemptConnect :: "attempt_outcome \<Rightarrow> string \<Rightarrow> int \<Rightarrow> session \<Rightarrow> attempt_wait progress \<times> session" where
  "attemptConnect outcome attemptHost attemptPort s =
     (case outcome of
        ConnectThrows err \<Rightarrow> (Throws err, s)
      | _ \<Rightarrow>
          let k = sockets s;
              s = does (SocketOpened k attemptHost attemptPort) (s\<lparr>sockets := k + 1, remoteSocket := Some k\<rparr>)
          in (Waits AwaitOpened, s))"

text \<open>
  The end of the \<open>try\<close>:
  \<^verbatim>\<open>isConnecting = false; webSocket.send('CONNECTED'); pumpRemoteToWebSocket(); return;\<close>
\<close>

definition attemptConnected :: "attempt_outcome \<Rightarrow> session \<Rightarrow> attempt_wait progress \<times> session" where
  "attemptConnected outcome s =
     (let s = s\<lparr>isConnecting := False\<rparr>;
          s = does (WsSent (Text ''CONNECTED'')) s
      in (case outcome of
            SendThrows err \<Rightarrow> (Throws err, s)
          | _ \<Rightarrow> (Returns, pumpRemoteToWebSocket s)))"

text \<open>
  After \<open>await remoteSocket.opened\<close>, which is rejected or resolved:
  \<^verbatim>\<open>remoteWriter = remoteSocket.writable.getWriter();
  remoteReader = remoteSocket.readable.getReader();
  if (firstFrameData) { await remoteWriter.write(encoder.encode(firstFrameData)); }\<close>
  The statements read the variable \<open>remoteSocket\<close> as it is by then: \<open>null\<close> when
  \<open>cleanup\<close> has run in between.
\<close>

definition attemptOpened :: "attempt_outcome \<Rightarrow> string \<Rightarrow> session \<Rightarrow> attempt_wait progress \<times> session" where
  "attemptOpened outcome firstFrameData s =
     (case outcome of
        OpenedRejects err \<Rightarrow> (Throws err, s)
      | _ \<Rightarrow>
          (case remoteSocket s of
             None \<Rightarrow> (Throws msgNullWritable, s)
           | Some k \<Rightarrow>
               (case outcome of
                  GetWriterThrows err \<Rightarrow> (Throws err, s)
                | _ \<Rightarrow>
                    let s = does (WriterAcquired k) (s\<lparr>remoteWriter := Some k\<rparr>)
                    in (case outcome of
                          GetReaderThrows err \<Rightarrow> (Throws err, s)
                        | _ \<Rightarrow>
                            let s = does (ReaderAcquired k) (s\<lparr>remoteReader := Some k\<rparr>)
                            in if firstFrameData \<noteq> [] then
                                 (Waits AwaitWrite, does (WriterWrote k (encode firstFrameData)) s)
                               else attemptConnected outcome s))))"

text \<open>After \<open>await remoteWriter.write(...)\<close>, which is rejected or resolved.\<close>

definition attemptWritten :: "attempt_outcome \<Rightarrow> session \<Rightarrow> attempt_wait progress \<times> session" where
  "attemptWritten outcome s =
     (case outcome of
        WriteRejects err \<Rightarrow> (Throws err, s)
      | _ \<Rightarrow> attemptConnected outcome s)"

text \<open>
  The loop from the head of attempt \<open>i\<close> to the next await, and the \<open>catch (err)\<close> of an
  attempt, which goes on with the next attempt when the error is a platform error and an
  attempt is left.
\<close>

fun attemptsFrom ::
  "(nat \<Rightarrow> attempt_outcome) \<Rightarrow> address \<Rightarrow> string \<Rightarrow> nat \<Rightarrow> string option list \<Rightarrow> session
   \<Rightarrow> attempt progress \<times> session"
and attemptCatch ::
  "(nat \<Rightarrow> attempt_outcome) \<Rightarrow> address \<Rightarrow> string \<Rightarrow> nat \<Rightarrow> string option list \<Rightarrow> string \<Rightarrow> session
   \<Rightarrow> attempt progress \<times> session" where
  "attemptsFrom outcomes original firstFrameData i [] s = (Returns, s)"
| "attemptsFrom outcomes original firstFrameData i (a # attempts) s =
     (let (attemptHost, attemptPort) =
            (case a of
               None \<Rightarrow> (host original, port original)
             | Some fallback \<Rightarrow> (let parsed = parseAddress fallback in (host parsed, port parsed)))
      in (case attemptConnect (outcomes i) attemptHost attemptPort s of
            (Throws err, s) \<Rightarrow> attemptCatch outcomes original firstFrameData i attempts err s
          | (Waits w, s) \<Rightarrow>
              (Waits \<lparr>waitsAt = w, originalAddr = original, firstFrame = firstFrameData,
                      attemptNo = i, fallbacks = attempts\<rparr>, s)
          | (Returns, s) \<Rightarrow> (Returns, s)))"
| "attemptCatch outcomes original firstFrameData i attempts err s =
     (let s = attemptCleanup s
      in if \<not> isCFError err \<or> attempts = [] then (Throws err, s)
         else attemptsFrom outcomes original firstFrameData (i + 1) attempts s)"

text \<open>The outer \<open>catch (err) { isConnecting = false; throw err; }\<close> of \<open>connectToRemote\<close>.\<close>

definition connectCatch :: "attempt progress \<times> session \<Rightarrow> attempt progress \<times> session" where
  "connectCatch ps =
     (case ps of
        (Throws err, s) \<Rightarrow> (Throws err, s\<lparr>isConnecting := False\<rparr>)
      | _ \<Rightarrow> ps)"

text \<open>
  \<open>connectToRemote\<close> from its call to its first await, and from the settling of the promise
  it waits for to the next await or to its end.
\<close>

definition connectBegin ::
  "(nat \<Rightarrow> attempt_outcome) \<Rightarrow> string \<Rightarrow> string \<Rightarrow> string \<Rightarrow> session \<Rightarrow> attempt progress \<times> session" where
  "connectBegin outcomes targetAddr firstFrameData proxyIP s =
     (if isConnecting s \<or> remoteSocket s \<noteq> None then (Throws msgAlreadyConnecting, s)
      else
        let s = s\<lparr>isConnecting := True, connectionAttempts := 0\<rparr>;
            original = parseAddress targetAddr;
            fallbackIPs = (if proxyIP \<noteq> [] then [proxyIP] else []);
            attempts = None # map Some fallbackIPs
        in connectCatch (attemptsFrom outcomes original firstFrameData 0 attempts s))"

definition connectResume :: "(nat \<Rightarrow> attempt_outcome) \<Rightarrow> attempt \<Rightarrow> session \<Rightarrow> attempt progress \<times> session" where
  "connectResume outcomes a s =
     connectCatch
       (case (case waitsAt a of
                AwaitOpened \<Rightarrow> attemptOpened (outcomes (attemptNo a)) (firstFrame a) s
              | AwaitWrite \<Rightarrow> attemptWritten (outcomes (attemptNo a)) s) of
          (Throws err, s) \<Rightarrow>
            attemptCatch outcomes (originalAddr a) (firstFrame a) (attemptNo a) (fallbacks a) err s
        | (Waits w, s) \<Rightarrow> (Waits (a\<lparr>waitsAt := w\<rparr>), s)
        | (Returns, s) \<Rightarrow> (Returns, s))"

text \<open>
  The session with its handlers: the variables, the calls of \<open>connectToRemote\<close> that wait
  (in the order they began), and the number of \<open>DATA:\<close> and binary handlers that wait for
  their write. \<open>idle\<close> is a session none of whose handlers waits.
\<close>

record relay =
  vars :: session
  waiting :: "attempt list"
  writes :: nat

definition idle :: "session \<Rightarrow> relay" where
  "idle s = \<lparr>vars = s, waiting = [], writes = 0\<rparr>"

text \<open>
  What the message listener does with \<open>connectToRemote\<close> when it is called (\<open>started\<close>) and
  when handler number \<open>j\<close> goes on (\<open>resumed\<close>): a handler that throws ends in the
  listener's \<open>catch\<close>.
\<close>

definition started :: "relay \<Rightarrow> attempt progress \<times> session \<Rightarrow> relay" where
  "started r ps =
     (case ps of
        (Waits a, s) \<Rightarrow> r\<lparr>vars := s, waiting := waiting r @ [a]\<rparr>
      | (Returns, s) \<Rightarrow> r\<lparr>vars := s\<rparr>
      | (Throws err, s) \<Rightarrow> r\<lparr>vars := onMessageCatch err s\<rparr>)"

definition resumed :: "relay \<Rightarrow> nat \<Rightarrow> attempt progress \<times> session \<Rightarrow> relay" where
  "resumed r j ps =
     (case ps of
        (Waits a, s) \<Rightarrow> r\<lparr>vars := s, waiting := (waiting r)[j := a]\<rparr>
      | (Returns, s) \<Rightarrow> r\<lparr>vars := s, waiting := take j (waiting r) @ drop (Suc j) (waiting r)\<rparr>
      | (Throws err, s) \<Rightarrow>
          r\<lparr>vars := onMessageCatch err s, waiting := take j (waiting r) @ drop (Suc j) (waiting r)\<rparr>)"

text \<open>\<open>if (remoteWriter) { await remoteWriter.write(...); }\<close>, up to the await.\<close>

definition dataWrite :: "byte list \<Rightarrow> relay \<Rightarrow> relay" where
  "dataWrite bytes r =
     (case remoteWriter (vars r) of
        None \<Rightarrow> r
      | Some w \<Rightarrow> r\<lparr>vars := does (WriterWrote w bytes) (vars r), writes := writes r + 1\<rparr>)"

text \<open>The message listener from the event to its first await, or to its end.\<close>

definition listener :: "ws_data \<Rightarrow> (nat \<Rightarrow> attempt_outcome) \<Rightarrow> relay \<Rightarrow> relay" where
  "listener data outcomes r =
     (if isClosed (vars r) then r
      else
        (case data of
           StringData str \<Rightarrow>
             if prefix ''CONNECT:'' str then
               let parts = splitAt (\<lambda>c. c = CHR ''|'') str;
                   targetAddr = drop 8 (piece parts 0);
                   firstFrameData = piece parts 1;
                   proxyIP = piece parts 2
               in if targetAddr = [] then started r (Throws msgInvalidTarget, vars r)
                  else started r (connectBegin outcomes targetAddr firstFrameData proxyIP (vars r))
             else if prefix ''DATA:'' str then dataWrite (encode (drop 5 str)) r
             else if str = ''CLOSE'' then r\<lparr>vars := cleanup (vars r)\<rparr>
             else r
         | ArrayBufferData bytes \<Rightarrow> dataWrite bytes r
         | OtherValue \<Rightarrow> r))"

text \<open>
  The events of the session with handlers that wait. \<open>Settled j outcomes\<close>: the promise
  that \<open>connectToRemote\<close> number \<open>j\<close> waits for settles, and \<open>outcomes\<close> tells how the
  attempts go on from there (by the number of the attempt). \<open>DataWritten\<close>: the write of
  a \<open>DATA:\<close> or binary handler settles, with the message of its rejection; all that is
  left of such a handler is its \<open>catch\<close>. The other events are those of \<open>step\<close>.
\<close>

datatype relay_event =
    OnMessage ws_data "nat \<Rightarrow> attempt_outcome"
  | OnClose
  | OnError
  | Settled nat "nat \<Rightarrow> attempt_outcome"
  | DataWritten "string option"
  | OnRead read_result bool
  | OnDelay bool bool
  | OnReadyState nat

fun deliver :: "relay \<Rightarrow> relay_event \<Rightarrow> relay" where
  "deliver r (OnMessage data outcomes) = listener data outcomes r"
| "deliver r OnClose = r\<lparr>vars := cleanup (vars r)\<rparr>"
| "deliver r OnError = r\<lparr>vars := cleanup (vars r)\<rparr>"
| "deliver r (Settled j outcomes) =
     (if j < length (waiting r) then resumed r j (connectResume outcomes (waiting r ! j) (vars r))
      else r)"
| "deliver r (DataWritten rejects) =
     (if writes r = 0 then r
      else
        let r = r\<lparr>writes := writes r - 1\<rparr>
        in (case rejects of None \<Rightarrow> r | Some err \<Rightarrow> r\<lparr>vars := onMessageCatch err (vars r)\<rparr>))"
| "deliver r (OnRead res sendThrows) =
     (if pump (vars r) = AwaitRead then r\<lparr>vars := pumpOnRead res sendThrows (vars r)\<rparr> else r)"
| "deliver r (OnDelay readable getReaderThrows) =
     (if pump (vars r) = AwaitDelay then r\<lparr>vars := pumpOnDelay readable getReaderThrows (vars r)\<rparr>
      else r)"
| "deliver r (OnReadyState n) = r\<lparr>vars := (vars r)\<lparr>readyState := n\<rparr>\<rparr>"

definition play :: "relay \<Rightarrow> relay_event list \<Rightarrow> relay" where
  "play r evs = foldl deliver r evs"


text \<open>
  A message without interruption: after the message event, the promises its handler waits
  for settle one after the other (at most four for \<open>connectToRemote\<close>, which makes at most
  two attempts; one for a write) before anything else happens. \<open>at_once\<close> delivers an event
  of \<open>step\<close> in this way.
\<close>

fun settle :: "(nat \<Rightarrow> attempt_outcome) \<Rightarrow> string option \<Rightarrow> nat \<Rightarrow> relay \<Rightarrow> relay" where
  "settle outcomes writeRejects 0 r = r"
| "settle outcomes writeRejects (Suc n) r =
     (if waiting r \<noteq> [] then settle outcomes writeRejects n (deliver r (Settled 0 outcomes))
      else if 0 < writes r then settle outcomes writeRejects n (deliver r (DataWritten writeRejects))
      else r)"

definition uninterrupted :: "ws_data \<Rightarrow> (nat \<Rightarrow> attempt_outcome) \<Rightarrow> string option \<Rightarrow> relay \<Rightarrow> relay" where
  "uninterrupted data outcomes writeRejects r =
     settle outcomes writeRejects 4 (deliver r (OnMessage data outcomes))"

fun at_once :: "relay \<Rightarrow> session_event \<Rightarrow> relay" where
  "at_once r (MessageEvent data outcomes writeRejects) = uninterrupted data outcomes writeRejects r"
| "at_once r CloseEvent = deliver r OnClose"
| "at_once r ErrorEvent = deliver r OnError"
| "at_once r (ReadSettled res sendThrows) = deliver r (OnRead res sendThrows)"
| "at_once r (DelayElapsed readable getReaderThrows) = deliver r (OnDelay readable getReaderThrows)"
| "at_once r (ReadyStateChanged n) = deliver r (OnReadyState n)"

text \<open>What the listener of \<open>onMessage\<close> makes of the result of \<open>attemptsLoop\<close>.\<close>

definition listened :: "string option \<times> session \<Rightarrow> session" where
  "listened rs =
     (case rs of
        (None, s) \<Rightarrow> s
      | (Some err, s) \<Rightarrow> onMessageCatch err (s\<lparr>isConnecting := False\<rparr>))"

text \<open>
  What holds after every event of the session with handlers that wait. A piece of
  \<open>connectToRemote\<close> leaves the session \<open>quiet\<close>: closed or open as before, with the same
  pump, counter and restarts. \<open>pump_inv\<close> is \<open>session_inv\<close> without its clause on closed
  sessions (an attempt that goes on after \<open>cleanup\<close> sets \<open>remoteSocket\<close> in a closed
  session), which is replaced by: a closed session with a socket has no pump that waits.
  \<open>relay_inv\<close> adds that a call of \<open>connectToRemote\<close> waits alone and with its socket set
  while the session is open, and that no pump waits while a call waits.
\<close>

definition quiet :: "session \<Rightarrow> session \<Rightarrow> bool" where
  "quiet s s' =
     (isClosed s' = isClosed s \<and> connectionAttempts s' = connectionAttempts s \<and> pump s' = pump s
      \<and> restarts (effects s') = restarts (effects s))"

definition pump_inv :: "session \<Rightarrow> bool" where
  "pump_inv s =
     (restarts (effects s) \<le> connectionAttempts s \<and> connectionAttempts s \<le> 3
      \<and> (pump s = AwaitDelay \<longrightarrow> restarts (effects s) < connectionAttempts s)
      \<and> (\<not> isClosed s \<and> remoteSocket s = None \<longrightarrow> pump s = NoPump \<and> restarts (effects s) = 0)
      \<and> (isClosed s \<and> remoteSocket s \<noteq> None \<longrightarrow> pump s = NoPump))"

definition relay_inv :: "relay \<Rightarrow> bool" where
  "relay_inv r =
     (pump_inv (vars r)
      \<and> (\<not> isClosed (vars r) \<and> waiting r \<noteq> [] \<longrightarrow>
           length (waiting r) = 1 \<and> remoteSocket (vars r) \<noteq> None)
      \<and> (waiting r \<noteq> [] \<longrightarrow> pump (vars r) = NoPump))"


section \<open>Example inputs\<close>

text \<open>
  A response to the question for the name \<open>a\<close>, type HTTPS: a CNAME answer with a
  compressed name, then an HTTPS answer, also with a compressed name, whose SvcParams are
  alpn (key 1) and ech (key 5) with the value 01 02 03.
\<close>

definition response_with_ech :: dns_response where
  "response_with_ech =
     \<lparr>msg_id = 1, msg_flags = 0x8180, msg_qname = [[0x61]], msg_qtype = 65, msg_qclass = 1,
      msg_answers =
        [\<lparr>rr_name = PointerForm 12, rr_class = 1, rr_ttl = 60, rr_data = OpaqueData 5 [1, 0x62, 0]\<rparr>,
         \<lparr>rr_name = PointerForm 12, rr_class = 1, rr_ttl = 60,
          rr_data = HTTPSData 1 []
            [\<lparr>sp_key = 1, sp_value = [2, 0x68, 0x32]\<rparr>, \<lparr>sp_key = 5, sp_value = [1, 2, 3]\<rparr>]\<rparr>],
      msg_nscount = 0, msg_arcount = 0, msg_rest = []\<rparr>"

text \<open>
  The same question answered by one HTTPS record whose SvcParams are no-default-alpn
  (key 2, which has no value) and ech (key 5) with the value 01 02 03.
\<close>

definition response_with_empty_param :: dns_response where
  "response_with_empty_param =
     \<lparr>msg_id = 1, msg_flags = 0x8180, msg_qname = [[0x61]], msg_qtype = 65, msg_qclass = 1,
      msg_answers =
        [\<lparr>rr_name = PointerForm 12, rr_class = 1, rr_ttl = 60,
          rr_data = HTTPSData 1 []
            [\<lparr>sp_key = 2, sp_value = []\<rparr>, \<lparr>sp_key = 5, sp_value = [1, 2, 3]\<rparr>]\<rparr>],
      msg_nscount = 0, msg_arcount = 0, msg_rest = []\<rparr>"

text \<open>
  The bytes of a response whose HTTPS answer has the name \<open>a\<close> followed by a pointer
  (a label and then a compression pointer), and the ech SvcParam with the value 01 02 03.
\<close>

definition response_partly_compressed :: "byte list" where
  "response_partly_compressed =
     [0, 1, 0x81, 0x80, 0, 1, 0, 1, 0, 0, 0, 0,
      1, 0x61, 0, 0, 65, 0, 1,
      1, 0x61, 0xC0, 0x0C, 0, 65, 0, 1, 0, 0, 0, 60, 0, 10,
      0, 1, 0, 0, 5, 0, 3, 1, 2, 3]"

text \<open>The same question with no answer (ANCOUNT = 0), and with one A record only.\<close>

definition response_without_answers :: dns_response where
  "response_without_answers =
     \<lparr>msg_id = 1, msg_flags = 0x8180, msg_qname = [[0x61]], msg_qtype = 65, msg_qclass = 1,
      msg_answers = [], msg_nscount = 0, msg_arcount = 0, msg_rest = []\<rparr>"

definition response_with_address_only :: dns_response where
  "response_with_address_only =
     \<lparr>msg_id = 1, msg_flags = 0x8180, msg_qname = [[0x61]], msg_qtype = 65, msg_qclass = 1,
      msg_answers =
        [\<lparr>rr_name = LabelForm [[0x61]], rr_class = 1, rr_ttl = 60, rr_data = OpaqueData 1 [10, 0, 0, 1]\<rparr>],
      msg_nscount = 0, msg_arcount = 0, msg_rest = []\<rparr>"

text \<open>A network that answers every DoH query with status 200 and the given body.\<close>

definition answering :: "byte list \<Rightarrow> network" where
  "answering body = (\<lambda>domain dohURL. Responded 200 (Inr body))"

text \<open>A decoder that rejects everything, for runs that never reach it.\<close>

definition rejecting :: decoder where
  "rejecting = (\<lambda>s. Inl (ErrExternal ''illegal base64 data''))"

text \<open>A network that is down, a store that was loaded before, and a client.\<close>

definition network_down :: network where
  "network_down = (\<lambda>domain dohURL. DoFails (ErrExternal ''timeout''))"

definition store_loaded :: ECHManager where
  "store_loaded = \<lparr>echList = [9, 9], echDomain = ''a'', dnsServer = ''dns.example''\<rparr>"

definition client_example :: WebSocketClient where
  "client_example = \<lparr>serverAddr = ''example.com:443/ws'', token = ''secret'', serverIP = []\<rparr>"

text \<open>
  An environment in which the store starts empty, the first \<open>Refresh\<close> meets a network
  that is down, every later one gets the response with the ECH value, and every dial
  succeeds with connection 7. The decoder knows the one string it is given here.
\<close>

definition environment_refresh_twice :: environment where
  "environment_refresh_twice =
     \<lparr>DecodeString = (\<lambda>s. if s = ''AQID'' then Inr [1, 2, 3] else Inl (ErrExternal ''illegal base64 data'')),
      SplitHostPort = (\<lambda>addr. Inr (''example.com'', ''443'')),
      SystemCertPool = (\<lambda>attempt. Inr ''system roots''),
      doh = (\<lambda>attempt. if attempt = 1 then network_down else answering (wire_response response_with_ech)),
      Dial = (\<lambda>attempt. Inr 7)\<rparr>"

text \<open>
  An environment in which every dial is refused with an error that names ECH, and one in
  which the network is down for good.
\<close>

definition environment_ech_rejected :: environment where
  "environment_ech_rejected =
     \<lparr>DecodeString = rejecting,
      SplitHostPort = (\<lambda>addr. Inr (''example.com'', ''443'')),
      SystemCertPool = (\<lambda>attempt. Inr ''system roots''),
      doh = (\<lambda>attempt. network_down),
      Dial = (\<lambda>attempt. Inl (ErrExternal ''tls: server rejected ECH''))\<rparr>"

text \<open>
  A session whose WebSocket is open and that has handled the message
  \<open>CONNECT:example.com:443\<close>, the connection having been established.
\<close>

definition established :: "nat \<Rightarrow> attempt_outcome" where
  "established i = Established"

definition session_connected :: session where
  "session_connected =
     step (handleSession 1) (MessageEvent (StringData ''CONNECT:example.com:443'') established None)"

text \<open>A second \<open>CONNECT\<close> message, and a run of teardown triggers.\<close>

definition second_connect :: session_event where
  "second_connect = MessageEvent (StringData ''CONNECT:other.example:80'') established None"


text \<open>
  A read of the pump that fails, followed by the end of the restart delay with the socket
  still readable; the connected session after three such rounds; and a whole session, from
  the \<open>CONNECT\<close> message through three rounds to a fourth failed read.
\<close>

definition failed_read :: session_event where
  "failed_read = ReadSettled ReadRejects False"

definition delay_over :: session_event where
  "delay_over = DelayElapsed True False"

definition session_restarted_thrice :: session where
  "session_restarted_thrice =
     run session_connected [failed_read, delay_over, failed_read, delay_over, failed_read, delay_over]"

definition failing_session :: "session_event list" where
  "failing_session =
     [MessageEvent (StringData ''CONNECT:example.com:443'') established None,
      failed_read, delay_over, failed_read, delay_over, failed_read, delay_over, failed_read]"

text \<open>
  A session that is connecting: its WebSocket is open and it has received the message
  \<open>CONNECT:example.com:443|hello|192.0.2.7\<close> (a first frame and a fallback address), whose
  handler waits for the socket to open. A second \<open>CONNECT\<close> message for it, and two ways
  in which the socket of the first attempt then fails to open: with an error that is not a
  platform error, and with one that is (after which the fallback attempt meets no error).
\<close>

definition session_connecting :: relay where
  "session_connecting =
     deliver (idle (handleSession 1))
       (OnMessage (StringData ''CONNECT:example.com:443|hello|192.0.2.7'') established)"


definition second_connect_message :: relay_event where
  "second_connect_message = OnMessage (StringData ''CONNECT:other.example:80'') established"


definition opened_blocked :: "nat \<Rightarrow> attempt_outcome" where
  "opened_blocked i = (if i = 0 then OpenedRejects ''proxy request failed'' else Established)"


section \<open>The parser never panics\<close>

lemma labelLoop_total: "\<exists>off. labelLoop r off0 = Some off"
proof (induction r off0 rule: labelLoop.induct)
  case (1 response offset)
  show ?case
  proof (cases "offset < length response \<and> response ! offset \<noteq> 0")
    case True
    then show ?thesis using 1[of "response ! offset" "response ! offset"]
      by (subst labelLoop.simps) (simp add: index_def)
  next
    case False
    then show ?thesis by (subst labelLoop.simps) (auto simp add: index_def)
  qed
qed

lemma targetNameLoop_total: "\<exists>r. targetNameLoop d off0 = Some r"
proof (induction d off0 rule: targetNameLoop.induct)
  case (1 data offset)
  show ?case
  proof (cases "offset < length data \<and> data ! offset \<noteq> 0 \<and> \<not> (offset + (unat (data ! offset) + 1) > length data)")
    case True
    then show ?thesis using 1[of "data ! offset" "data ! offset" "unat (data ! offset) + 1"]
      by (subst targetNameLoop.simps) (simp add: index_def Let_def)
  next
    case False
    then show ?thesis by (subst targetNameLoop.simps) (auto simp add: index_def Let_def)
  qed
qed

lemma subslice_Uint16:
  assumes "hi = lo + 2" "hi \<le> length d"
  shows "\<exists>w. Option.bind (subslice d lo hi) Uint16 = Some w"
proof -
  from assms have "hi - lo = 2" "lo \<le> hi" by arith+
  with assms show ?thesis by (simp add: subslice_def Uint16_def)
qed

lemma subslice_Some:
  "lo \<le> hi \<Longrightarrow> hi \<le> length d \<Longrightarrow> \<exists>v. subslice d lo hi = Some v"
  by (simp add: subslice_def)

lemma svcParamLoop_total: "\<exists>r. svcParamLoop d off0 = Some r"
proof (induction d off0 rule: svcParamLoop.induct)
  case (1 data offset)
  show ?case
  proof (cases "offset + 4 \<le> length data")
    case False
    then show ?thesis by (subst svcParamLoop.simps) simp
  next
    case True
    obtain key where k: "Option.bind (subslice data offset (offset + 2)) Uint16 = Some key"
      using subslice_Uint16[of "offset + 2" offset data] True by auto
    obtain len where l: "Option.bind (subslice data (offset + 2) (offset + 4)) Uint16 = Some len"
      using subslice_Uint16[of "offset + 4" "offset + 2" data] True by auto
    show ?thesis
    proof (cases "len = 0 \<or> offset + 4 + unat len > length data")
      case True
      then show ?thesis using \<open>offset + 4 \<le> length data\<close> k l
        by (subst svcParamLoop.simps) (auto simp: Let_def)
    next
      case False
      then obtain v where s: "subslice data (offset + 4) (offset + 4 + unat len) = Some v"
        using subslice_Some[of "offset + 4" "offset + 4 + unat len" data] by auto
      have nz: "\<not> (len = 0 \<or> length data < offset + 4 + unat len)" using False by simp
      have n4: "\<not> length data < offset + 4" using True by simp
      show ?thesis
        using 1[OF True n4 k l refl nz s refl] True n4 k l s nz
        by (subst svcParamLoop.simps) (simp add: Let_def)
    qed
  qed
qed

lemma parseHTTPSRecord_total: "\<exists>r. parseHTTPSRecord d = Some r"
proof -
  obtain r1 where r1: "targetNameLoop d 2 = Some r1" using targetNameLoop_total by blast
  show ?thesis
    using svcParamLoop_total
    by (cases r1) (auto simp: parseHTTPSRecord_def Let_def index_def r1)
qed


lemma answerLoop_total: "\<exists>r. answerLoop resp n i off = Some r"
proof (induction "n - i" arbitrary: i off)
  case 0
  then show ?case by (subst answerLoop.simps) simp
next
  case (Suc k)
  then have lt: "i < n" and k: "k = n - (i + 1)" by arith+
  have IH: "\<And>off'. \<exists>r. answerLoop resp n (i + 1) off' = Some r"
    using Suc.hyps(1)[OF k] .
  show ?case
  proof (cases "off \<ge> length resp")
    case True
    then show ?thesis using lt by (subst answerLoop.simps) simp
  next
    case False
    then have ix: "index resp off = Some (resp ! off)" by (simp add: index_def)
    obtain l where l: "labelLoop resp off = Some l" using labelLoop_total by blast
    define off1 where "off1 = (if resp ! off AND 0xC0 = 0xC0 then off + 2 else l + 1)"
    have nm: "(if resp ! off AND 0xC0 = 0xC0 then Some (off + 2)
               else map_option (\<lambda>offset. offset + 1) (labelLoop resp off)) = Some off1"
      by (simp add: off1_def l)
    show ?thesis
    proof (cases "off1 + 10 > length resp")
      case True
      then show ?thesis using lt False ix nm by (subst answerLoop.simps) simp
    next
      case b10: False
      obtain rrType where t: "Option.bind (subslice resp off1 (off1 + 2)) Uint16 = Some rrType"
        using subslice_Uint16[of "off1 + 2" off1 resp] b10 by auto
      obtain dataLen where d: "Option.bind (subslice resp (off1 + 8) (off1 + 8 + 2)) Uint16 = Some dataLen"
        using subslice_Uint16[of "off1 + 8 + 2" "off1 + 8" resp] b10 by auto
      show ?thesis
      proof (cases "off1 + 8 + 2 + unat dataLen > length resp")
        case True
        then show ?thesis using lt False ix nm b10 t d
          by (subst answerLoop.simps) (simp add: Let_def)
      next
        case bd: False
        obtain data where da: "subslice resp (off1 + 8 + 2) (off1 + 8 + 2 + unat dataLen) = Some data"
          using subslice_Some[of "off1 + 8 + 2" "off1 + 8 + 2 + unat dataLen" resp] bd by auto
        obtain ech where e: "parseHTTPSRecord data = Some ech"
          using parseHTTPSRecord_total by blast
        show ?thesis
          using lt False ix nm b10 t d bd da e IH[of "off1 + 8 + 2 + unat dataLen"]
          by (subst answerLoop.simps) (simp add: Let_def)
      qed
    qed
  qed
qed

lemma parseDNSResponse_total: "\<exists>r. parseDNSResponse response = Some r"
proof (cases "length response < 12")
  case True
  then show ?thesis by (simp add: parseDNSResponse_def)
next
  case False
  obtain ancount where a: "Option.bind (subslice response 6 8) Uint16 = Some ancount"
    using subslice_Uint16[of 8 6 response] False by auto
  obtain off where l: "labelLoop response 12 = Some off" using labelLoop_total by blast
  show ?thesis using False a l answerLoop_total[of response "unat ancount" 0 "off + 5"]
    by (simp add: parseDNSResponse_def)
qed

subsection \<open>Words and the wire format\<close>

lemma unat_of_nat_byte: "n < 256 \<Longrightarrow> unat (of_nat n :: byte) = n"
  by (simp add: unat_of_nat)

lemma unat_of_nat_16: "n < 65536 \<Longrightarrow> unat (of_nat n :: 16 word) = n"
  by (simp add: unat_of_nat)

lemma label_not_pointer: "n \<le> 63 \<Longrightarrow> (of_nat n :: byte) AND 0xC0 \<noteq> 0xC0"
proof
  assume n: "n \<le> 63" and a: "(of_nat n :: byte) AND 0xC0 = 0xC0"
  have "(of_nat n :: byte) AND 0xC0 \<le> of_nat n" by (rule word_and_le2)
  with a have "(0xC0 :: byte) \<le> of_nat n" by simp
  then have "unat (0xC0 :: byte) \<le> unat (of_nat n :: byte)" by (simp add: word_le_nat_alt)
  with n show False by (simp add: unat_of_nat)
qed

lemma pointer_is_pointer: "((0xC0 OR x) AND 0xC0 :: byte) = 0xC0"
  by simp

lemma u16_join:
  "(ucast (ucast w :: byte) :: 16 word) OR push_bit 8 (ucast (ucast (drop_bit 8 w) :: byte)) = (w :: 16 word)"
  by (rule bit_word_eqI) (auto simp add: bit_simps)

lemma Uint16_be16: "Uint16 (be16 w) = Some w"
  by (simp add: Uint16_def be16_def u16_join)

lemma length_be16 [simp]: "length (be16 w) = 2"
  by (simp add: be16_def)

lemma length_be32 [simp]: "length (be32 w) = 4"
  by (simp add: be32_def)

lemma index_append_at: "index (A @ b # B) (length A) = Some b"
  by (simp add: index_def)

lemma subslice_append:
  "lo = length X \<Longrightarrow> hi = lo + length Y \<Longrightarrow> subslice (X @ Y @ Z) lo hi = Some Y"
  by (simp add: subslice_def)

lemma Uint16_at:
  "lo = length X \<Longrightarrow> hi = lo + 2 \<Longrightarrow> Option.bind (subslice (X @ be16 w @ Z) lo hi) Uint16 = Some w"
  by (simp add: subslice_append Uint16_be16)

lemma wire_labels_nonempty: "0 < length (wire_labels ls)"
  by (cases ls) simp_all

lemma index_SomeD: "index r off = Some b \<Longrightarrow> off < length r"
  by (simp add: index_def split: if_splits)

lemma labelLoop_step:
  "index r off = Some b \<Longrightarrow> b \<noteq> 0 \<Longrightarrow> labelLoop r off = labelLoop r (off + (unat b + 1))"
  by (subst labelLoop.simps) (simp add: index_SomeD)

lemma labelLoop_stop: "index r off = Some 0 \<Longrightarrow> labelLoop r off = Some off"
  by (subst labelLoop.simps) (simp add: index_SomeD)

lemma targetNameLoop_step:
  "index d off = Some b \<Longrightarrow> b \<noteq> 0 \<Longrightarrow> off + (unat b + 1) \<le> length d
   \<Longrightarrow> targetNameLoop d off = targetNameLoop d (off + (unat b + 1))"
  by (subst targetNameLoop.simps) (simp add: index_SomeD Let_def)

lemma targetNameLoop_stop: "index d off = Some 0 \<Longrightarrow> targetNameLoop d off = Some (Inr off)"
  by (subst targetNameLoop.simps) (simp add: index_SomeD)

lemma labelLoop_wire:
  assumes "wf_labels ls"
  shows "labelLoop (A @ wire_labels ls @ B) (length A) = Some (length A + length (wire_labels ls) - 1)"
  using assms
proof (induction ls arbitrary: A)
  case Nil
  show ?case by (rule trans[OF labelLoop_stop]) (simp_all add: index_def)
next
  case (Cons l ls)
  have l: "0 < length l" "length l \<le> 63" and ls: "wf_labels ls"
    using Cons.prems by (auto simp: wf_labels_def)
  have un: "unat (of_nat (length l) :: byte) = length l"
    using l by (simp add: unat_of_nat_byte)
  have nz: "(of_nat (length l) :: byte) \<noteq> 0"
    using un l by auto
  have ix: "index (A @ wire_labels (l # ls) @ B) (length A) = Some (of_nat (length l))"
    by (simp add: index_def)
  have step: "labelLoop (A @ wire_labels (l # ls) @ B) (length A)
              = labelLoop (A @ wire_labels (l # ls) @ B) (length A + (length l + 1))"
    using labelLoop_step[OF ix nz] by (simp only: un)
  have "labelLoop ((A @ of_nat (length l) # l) @ wire_labels ls @ B) (length (A @ of_nat (length l) # l))
        = Some (length (A @ of_nat (length l) # l) + length (wire_labels ls) - 1)"
    by (rule Cons.IH[OF ls])
  then show ?case using step wire_labels_nonempty[of ls] by simp
qed

lemma targetNameLoop_wire:
  assumes "wf_labels ls"
  shows "targetNameLoop (A @ wire_labels ls @ B) (length A)
         = Some (Inr (length A + length (wire_labels ls) - 1))"
  using assms
proof (induction ls arbitrary: A)
  case Nil
  show ?case by (rule trans[OF targetNameLoop_stop]) (simp_all add: index_def)
next
  case (Cons l ls)
  have l: "0 < length l" "length l \<le> 63" and ls: "wf_labels ls"
    using Cons.prems by (auto simp: wf_labels_def)
  have un: "unat (of_nat (length l) :: byte) = length l"
    using l by (simp add: unat_of_nat_byte)
  have nz: "(of_nat (length l) :: byte) \<noteq> 0"
    using un l by auto
  have ix: "index (A @ wire_labels (l # ls) @ B) (length A) = Some (of_nat (length l))"
    by (simp add: index_def)
  have step: "targetNameLoop (A @ wire_labels (l # ls) @ B) (length A)
              = targetNameLoop (A @ wire_labels (l # ls) @ B) (length A + (length l + 1))"
    using targetNameLoop_step[OF ix nz] by (simp add: un)
  have "targetNameLoop ((A @ of_nat (length l) # l) @ wire_labels ls @ B) (length (A @ of_nat (length l) # l))
        = Some (Inr (length (A @ of_nat (length l) # l) + length (wire_labels ls) - 1))"
    by (rule Cons.IH[OF ls])
  then show ?case using step wire_labels_nonempty[of ls] by simp
qed


lemma svcParamLoop_end: "svcParamLoop A (length A) = Some []"
  by (subst svcParamLoop.simps) simp

lemma length_wire_param: "length (wire_param p) = 4 + length (sp_value p)"
  by (simp add: wire_param_def)

lemma svcParamLoop_param:
  assumes "length (sp_value p) < 65536"
  shows "svcParamLoop (A @ wire_param p @ B) (length A) =
           (if sp_value p = [] then Some []
            else if sp_key p = 5 then Some (EncodeToString (sp_value p))
            else svcParamLoop (A @ wire_param p @ B) (length A + length (wire_param p)))"
proof -
  let ?d = "A @ wire_param p @ B"
  let ?n = "length (sp_value p)"
  have d: "?d = A @ be16 (sp_key p) @ (be16 (of_nat ?n) @ sp_value p @ B)"
    by (simp add: wire_param_def)
  have d2: "?d = (A @ be16 (sp_key p)) @ be16 (of_nat ?n) @ (sp_value p @ B)"
    by (simp add: wire_param_def)
  have d3: "?d = (A @ be16 (sp_key p) @ be16 (of_nat ?n)) @ sp_value p @ B"
    by (simp add: wire_param_def)
  have k: "Option.bind (subslice ?d (length A) (length A + 2)) Uint16 = Some (sp_key p)"
    by (subst d) (rule Uint16_at, simp_all)
  have l: "Option.bind (subslice ?d (length A + 2) (length A + 4)) Uint16 = Some (of_nat ?n)"
    by (subst d2) (rule Uint16_at, simp_all)
  have v: "subslice ?d (length A + 4) (length A + 4 + ?n) = Some (sp_value p)"
    by (subst d3) (rule subslice_append, simp_all)
  have len: "length ?d = length A + 4 + ?n + length B"
    by (simp add: wire_param_def)
  have un: "unat (of_nat ?n :: 16 word) = ?n"
    using assms by (simp add: unat_of_nat_16)
  have z: "(of_nat ?n :: 16 word) = 0 \<longleftrightarrow> sp_value p = []"
  proof
    assume "(of_nat ?n :: 16 word) = 0"
    then have "unat (of_nat ?n :: 16 word) = 0" by simp
    with un show "sp_value p = []" by simp
  next
    assume "sp_value p = []"
    then show "(of_nat ?n :: 16 word) = 0" by simp
  qed
  show ?thesis
    apply (subst svcParamLoop.simps)
    apply (simp only: k l option.case Let_def un v)
    apply (simp add: z len length_wire_param add.assoc)
    done
qed

lemma svcParamLoop_no_ech:
  assumes "list_all (\<lambda>p. length (sp_value p) < 65536) ps" "\<not> list_ex (\<lambda>p. sp_key p = 5) ps"
  shows "svcParamLoop (A @ wire_params ps) (length A) = Some []"
  using assms
proof (induction ps arbitrary: A)
  case Nil
  show ?case by (simp add: wire_params_def svcParamLoop_end)
next
  case (Cons p ps)
  have p: "length (sp_value p) < 65536" "sp_key p \<noteq> 5" using Cons.prems by simp_all
  have e: "A @ wire_params (p # ps) = A @ wire_param p @ wire_params ps"
    by (simp add: wire_params_def)
  have "svcParamLoop ((A @ wire_param p) @ wire_params ps) (length (A @ wire_param p)) = Some []"
    using Cons.prems by (intro Cons.IH) simp_all
  then show ?case
    unfolding e by (subst svcParamLoop_param[OF p(1)]) (simp add: p)
qed

lemma svcParamLoop_ech:
  assumes "list_all (\<lambda>p. length (sp_value p) < 65536 \<and> sp_value p \<noteq> [] \<and> sp_key p \<noteq> 5) ps"
    and "v \<noteq> []" "length v < 65536"
  shows "svcParamLoop (A @ wire_params (ps @ \<lparr>sp_key = 5, sp_value = v\<rparr> # qs)) (length A)
         = Some (EncodeToString v)"
  using assms(1)
proof (induction ps arbitrary: A)
  case Nil
  have e: "A @ wire_params ([] @ \<lparr>sp_key = 5, sp_value = v\<rparr> # qs)
           = A @ wire_param \<lparr>sp_key = 5, sp_value = v\<rparr> @ wire_params qs"
    by (simp add: wire_params_def)
  show ?case unfolding e
    by (subst svcParamLoop_param) (simp_all add: assms)
next
  case (Cons p ps)
  have p: "length (sp_value p) < 65536" "sp_key p \<noteq> 5" "sp_value p \<noteq> []"
    using Cons.prems by simp_all
  have e: "A @ wire_params ((p # ps) @ \<lparr>sp_key = 5, sp_value = v\<rparr> # qs)
           = A @ wire_param p @ wire_params (ps @ \<lparr>sp_key = 5, sp_value = v\<rparr> # qs)"
    by (simp add: wire_params_def)
  have "svcParamLoop ((A @ wire_param p) @ wire_params (ps @ \<lparr>sp_key = 5, sp_value = v\<rparr> # qs))
          (length (A @ wire_param p)) = Some (EncodeToString v)"
    using Cons.prems by (intro Cons.IH) simp_all
  then show ?case
    unfolding e by (subst svcParamLoop_param[OF p(1)]) (simp add: p)
qed

lemma parseHTTPSRecord_wire:
  assumes "wf_labels target"
  shows "parseHTTPSRecord (be16 priority @ wire_labels target @ P)
         = svcParamLoop ((be16 priority @ wire_labels target) @ P) (length (be16 priority @ wire_labels target))"
proof -
  let ?d = "be16 priority @ wire_labels target @ P"
  have len: "2 < length ?d" using wire_labels_nonempty[of target] by simp
  show ?thesis
  proof (cases target)
    case Nil
    have ix: "index ?d 2 = Some 0" using Nil by (simp add: index_def be16_def)
    show ?thesis using len ix by (simp add: parseHTTPSRecord_def Let_def Nil)
  next
    case (Cons l ls)
    have l: "0 < length l" "length l \<le> 63" using assms Cons by (auto simp: wf_labels_def)
    have un: "unat (of_nat (length l) :: byte) = length l"
      using l by (simp add: unat_of_nat_byte)
    have nz: "(of_nat (length l) :: byte) \<noteq> 0"
      using un l by auto
    have ix: "index ?d 2 = Some (of_nat (length l))" using Cons by (simp add: index_def be16_def)
    have t: "targetNameLoop ?d (length (be16 priority))
             = Some (Inr (length (be16 priority) + length (wire_labels target) - 1))"
      by (rule targetNameLoop_wire[OF assms])
    show ?thesis using len ix nz t wire_labels_nonempty[of target]
      by (simp add: parseHTTPSRecord_def Let_def)
  qed
qed


lemma answerLoop_unfold:
  assumes "i < n" "off < length resp"
    and "(if resp ! off AND 0xC0 = 0xC0 then Some (off + 2)
          else map_option (\<lambda>offset. offset + 1) (labelLoop resp off)) = Some off1"
    and "off1 + 10 \<le> length resp"
    and "Option.bind (subslice resp off1 (off1 + 2)) Uint16 = Some rrType"
    and "Option.bind (subslice resp (off1 + 8) (off1 + 8 + 2)) Uint16 = Some dataLen"
    and "off1 + 8 + 2 + unat dataLen \<le> length resp"
    and "subslice resp (off1 + 8 + 2) (off1 + 8 + 2 + unat dataLen) = Some data"
    and "parseHTTPSRecord data = Some ech"
  shows "answerLoop resp n i off =
           (if rrType = TypeHTTPS \<and> ech \<noteq> [] then Some (ech, None)
            else answerLoop resp n (i + 1) (off1 + 8 + 2 + unat dataLen))"
  using assms by (subst answerLoop.simps) (simp add: Let_def index_def)

lemma length_wire_name_pos: "0 < length (wire_name nm)"
  using wire_labels_nonempty by (cases nm) simp_all

lemma name_skip:
  assumes "wf_name nm"
  shows "(if (A @ wire_name nm @ R) ! length A AND 0xC0 = 0xC0 then Some (length A + 2)
          else map_option (\<lambda>offset. offset + 1) (labelLoop (A @ wire_name nm @ R) (length A)))
         = Some (length A + length (wire_name nm))"
proof (cases nm)
  case (PointerForm p)
  then show ?thesis by simp
next
  case (LabelForm ls)
  then have wf: "wf_labels ls" using assms by simp
  have np: "(A @ wire_labels ls @ R) ! length A AND 0xC0 \<noteq> 0xC0"
  proof (cases ls)
    case Nil
    then show ?thesis by simp
  next
    case (Cons l ls')
    then have "length l \<le> 63" using wf by (simp add: wf_labels_def)
    then show ?thesis using Cons by (simp add: label_not_pointer)
  qed
  show ?thesis
    using np labelLoop_wire[OF wf, of A R] wire_labels_nonempty[of ls] LabelForm by simp
qed

lemma answerLoop_rr:
  assumes "wf_rr r" "i < n" "parseHTTPSRecord (wire_rdata (rr_data r)) = Some ech"
  shows "answerLoop (A @ wire_rr r @ B) n i (length A) =
           (if rdata_type (rr_data r) = TypeHTTPS \<and> ech \<noteq> [] then Some (ech, None)
            else answerLoop (A @ wire_rr r @ B) n (i + 1) (length A + length (wire_rr r)))"
proof -
  let ?N = "wire_name (rr_name r)"
  let ?D = "wire_rdata (rr_data r)"
  let ?ty = "be16 (rdata_type (rr_data r))"
  let ?cl = "be16 (rr_class r)"
  let ?ttl = "be32 (rr_ttl r)"
  let ?dl = "be16 (of_nat (length ?D))"
  let ?resp = "A @ wire_rr r @ B"
  let ?off1 = "length A + length ?N"
  have wfn: "wf_name (rr_name r)" and wfd: "wf_rdata (rr_data r)"
    using assms(1) by (simp_all add: wf_rr_def)
  have dlen: "length ?D < 65536" using wfd by (cases "rr_data r") simp_all
  have un: "unat (of_nat (length ?D) :: 16 word) = length ?D"
    using dlen by (simp add: unat_of_nat_16)
  have r1: "?resp = A @ ?N @ (?ty @ ?cl @ ?ttl @ ?dl @ ?D @ B)"
    by (simp add: wire_rr_def)
  have r2: "?resp = (A @ ?N) @ ?ty @ (?cl @ ?ttl @ ?dl @ ?D @ B)"
    by (simp add: wire_rr_def)
  have r3: "?resp = (A @ ?N @ ?ty @ ?cl @ ?ttl) @ ?dl @ (?D @ B)"
    by (simp add: wire_rr_def)
  have r4: "?resp = (A @ ?N @ ?ty @ ?cl @ ?ttl @ ?dl) @ ?D @ B"
    by (simp add: wire_rr_def)
  have len: "length ?resp = ?off1 + 10 + length ?D + length B"
    by (simp add: wire_rr_def)
  have a1: "length A < length ?resp"
    using length_wire_name_pos[of "rr_name r"] len by simp
  have a2: "(if ?resp ! length A AND 0xC0 = 0xC0 then Some (length A + 2)
             else map_option (\<lambda>offset. offset + 1) (labelLoop ?resp (length A))) = Some ?off1"
    by (subst (1 2) r1) (rule name_skip[OF wfn])
  have a3: "?off1 + 10 \<le> length ?resp" using len by simp
  have a4: "Option.bind (subslice ?resp ?off1 (?off1 + 2)) Uint16 = Some (rdata_type (rr_data r))"
    by (subst r2) (rule Uint16_at, simp_all)
  have a5: "Option.bind (subslice ?resp (?off1 + 8) (?off1 + 8 + 2)) Uint16 = Some (of_nat (length ?D))"
    by (subst r3) (rule Uint16_at, simp_all)
  have a6: "?off1 + 8 + 2 + unat (of_nat (length ?D) :: 16 word) \<le> length ?resp"
    using len un by simp
  have a7: "subslice ?resp (?off1 + 8 + 2) (?off1 + 8 + 2 + unat (of_nat (length ?D) :: 16 word)) = Some ?D"
    unfolding un by (subst r4) (rule subslice_append, simp_all)
  have e: "?off1 + 8 + 2 + unat (of_nat (length ?D) :: 16 word) = length A + length (wire_rr r)"
    using un by (simp add: wire_rr_def)
  show ?thesis
    using answerLoop_unfold[OF assms(2) a1 a2 a3 a4 a5 a6 a7 assms(3)] unfolding e .
qed

lemma EncodeToString_nonempty: "v \<noteq> [] \<Longrightarrow> EncodeToString v \<noteq> []"
  by (cases v rule: EncodeToString.cases) (simp_all add: Let_def)

lemma no_ech_record:
  assumes "wf_rr r" "\<not> carries_ech r"
  shows "rdata_type (rr_data r) \<noteq> TypeHTTPS \<or> parseHTTPSRecord (wire_rdata (rr_data r)) = Some []"
proof (cases "rr_data r")
  case (OpaqueData t raw)
  then show ?thesis using assms(1) by (simp add: wf_rr_def TypeHTTPS_def)
next
  case (HTTPSData priority target params)
  then have wf: "wf_labels target" "list_all (\<lambda>p. length (sp_value p) < 65536) params"
    and no: "\<not> list_ex (\<lambda>p. sp_key p = 5) params"
    using assms by (simp_all add: wf_rr_def)
  have "parseHTTPSRecord (be16 priority @ wire_labels target @ wire_params params) = Some []"
    unfolding parseHTTPSRecord_wire[OF wf(1)] by (rule svcParamLoop_no_ech[OF wf(2) no])
  then show ?thesis using HTTPSData by simp
qed

lemma ech_record:
  assumes "wf_rr r"
    and "rr_data r = HTTPSData priority target (ps @ \<lparr>sp_key = 5, sp_value = v\<rparr> # qs)"
    and "list_all (\<lambda>p. sp_key p \<noteq> 5 \<and> sp_value p \<noteq> []) ps"
    and "v \<noteq> []"
  shows "parseHTTPSRecord (wire_rdata (rr_data r)) = Some (EncodeToString v)"
proof -
  have wf: "wf_labels target"
    and lens: "list_all (\<lambda>p. length (sp_value p) < 65536) (ps @ \<lparr>sp_key = 5, sp_value = v\<rparr> # qs)"
    using assms(1,2) by (simp_all add: wf_rr_def)
  have ps: "list_all (\<lambda>p. length (sp_value p) < 65536 \<and> sp_value p \<noteq> [] \<and> sp_key p \<noteq> 5) ps"
    using lens assms(3) by (auto simp: list_all_iff)
  have v: "length v < 65536" using lens by simp
  have "parseHTTPSRecord (be16 priority @ wire_labels target
          @ wire_params (ps @ \<lparr>sp_key = 5, sp_value = v\<rparr> # qs)) = Some (EncodeToString v)"
    unfolding parseHTTPSRecord_wire[OF wf] by (rule svcParamLoop_ech[OF ps assms(4) v])
  then show ?thesis using assms(2) by simp
qed

lemma answerLoop_skip:
  assumes "list_all wf_rr rs" "\<not> list_ex carries_ech rs" "i + length rs \<le> n"
  shows "answerLoop (A @ wire_answers rs @ B) n i (length A)
         = answerLoop (A @ wire_answers rs @ B) n (i + length rs) (length A + length (wire_answers rs))"
  using assms
proof (induction rs arbitrary: A i)
  case Nil
  show ?case by (simp add: wire_answers_def)
next
  case (Cons r rs)
  have r: "wf_rr r" "\<not> carries_ech r" and lt: "i < n" using Cons.prems by simp_all
  obtain ech where e: "parseHTTPSRecord (wire_rdata (rr_data r)) = Some ech"
    using parseHTTPSRecord_total by blast
  have cont: "\<not> (rdata_type (rr_data r) = TypeHTTPS \<and> ech \<noteq> [])"
    using no_ech_record[OF r] e by auto
  have eq: "A @ wire_answers (r # rs) @ B = A @ wire_rr r @ (wire_answers rs @ B)"
    by (simp add: wire_answers_def)
  have eq2: "A @ wire_answers (r # rs) @ B = (A @ wire_rr r) @ wire_answers rs @ B"
    by (simp add: wire_answers_def)
  have s1: "answerLoop (A @ wire_answers (r # rs) @ B) n i (length A)
            = answerLoop (A @ wire_answers (r # rs) @ B) n (i + 1) (length A + length (wire_rr r))"
    unfolding eq using answerLoop_rr[OF r(1) lt e, of A "wire_answers rs @ B"] cont by simp
  have s2: "answerLoop ((A @ wire_rr r) @ wire_answers rs @ B) n (i + 1) (length (A @ wire_rr r))
            = answerLoop ((A @ wire_rr r) @ wire_answers rs @ B) n (i + 1 + length rs)
                (length (A @ wire_rr r) + length (wire_answers rs))"
    using Cons.prems by (intro Cons.IH) simp_all
  have len: "length (wire_answers (r # rs)) = length (wire_rr r) + length (wire_answers rs)"
    by (simp add: wire_answers_def)
  show ?case
    unfolding s1 using s2 unfolding eq2[symmetric] by (simp add: len add.assoc)
qed

lemma wire_response_prelude:
  "wire_response m = wire_prelude m @ wire_answers (msg_answers m) @ msg_rest m"
  by (simp add: wire_response_def wire_prelude_def)

lemma parseDNSResponse_wire:
  assumes "wf_response m"
  shows "parseDNSResponse (wire_response m) =
           (if msg_answers m = [] then Some ([], Some ErrNoAnswerRecords)
            else answerLoop (wire_response m) (length (msg_answers m)) 0 (length (wire_prelude m)))"
proof -
  let ?r = "wire_response m"
  let ?n = "length (msg_answers m)"
  let ?H = "be16 (msg_id m) @ be16 (msg_flags m) @ be16 1 @ be16 (of_nat ?n)
            @ be16 (msg_nscount m) @ be16 (msg_arcount m)"
  let ?T = "be16 (msg_qtype m) @ be16 (msg_qclass m) @ wire_answers (msg_answers m) @ msg_rest m"
  have wfq: "wf_labels (msg_qname m)" and n: "?n < 65536"
    using assms by (simp_all add: wf_response_def)
  have len: "\<not> length ?r < 12" by (simp add: wire_response_def)
  have r1: "?r = (be16 (msg_id m) @ be16 (msg_flags m) @ be16 1) @ be16 (of_nat ?n)
                 @ (be16 (msg_nscount m) @ be16 (msg_arcount m)
                    @ wire_labels (msg_qname m) @ ?T)"
    by (simp add: wire_response_def)
  have an: "Option.bind (subslice ?r 6 8) Uint16 = Some (of_nat ?n)"
    by (subst r1) (rule Uint16_at, simp_all)
  have un: "unat (of_nat ?n :: 16 word) = ?n" using n by (simp add: unat_of_nat_16)
  have z: "(of_nat ?n :: 16 word) = 0 \<longleftrightarrow> msg_answers m = []"
  proof
    assume "(of_nat ?n :: 16 word) = 0"
    then have "unat (of_nat ?n :: 16 word) = 0" by simp
    with un show "msg_answers m = []" by simp
  next
    assume "msg_answers m = []"
    then show "(of_nat ?n :: 16 word) = 0" by simp
  qed
  have r2: "?r = ?H @ wire_labels (msg_qname m) @ ?T"
    by (simp add: wire_response_def)
  have "labelLoop (?H @ wire_labels (msg_qname m) @ ?T) (length ?H)
        = Some (length ?H + length (wire_labels (msg_qname m)) - 1)"
    by (rule labelLoop_wire[OF wfq])
  then have q: "labelLoop ?r 12 = Some (12 + length (wire_labels (msg_qname m)) - 1)"
    unfolding r2[symmetric] by simp
  have plen: "length (wire_prelude m) = 16 + length (wire_labels (msg_qname m))"
    by (simp add: wire_prelude_def)
  show ?thesis
    unfolding parseDNSResponse_def using len an q by (simp add: un z plen)
qed

lemma answerLoop_done: "answerLoop resp n n off = Some ([], None)"
  by (subst answerLoop.simps) simp

lemma parseDNSResponse_first_ech:
  assumes "wf_response m"
    and "msg_answers m = before @ r # after"
    and "\<not> list_ex carries_ech before"
    and "rr_data r = HTTPSData priority target (ps @ \<lparr>sp_key = 5, sp_value = v\<rparr> # qs)"
    and "list_all (\<lambda>p. sp_key p \<noteq> 5 \<and> sp_value p \<noteq> []) ps"
    and "v \<noteq> []"
  shows "parseDNSResponse (wire_response m) = Some (EncodeToString v, None)"
proof -
  let ?n = "length (msg_answers m)"
  let ?A = "wire_prelude m"
  let ?B = "wire_answers after @ msg_rest m"
  have wfs: "list_all wf_rr before" "wf_rr r"
    using assms(1,2) by (simp_all add: wf_response_def)
  have ne: "msg_answers m \<noteq> []" using assms(2) by simp
  have resp: "wire_response m = ?A @ wire_answers before @ (wire_rr r @ ?B)"
    by (simp add: wire_response_prelude assms(2) wire_answers_def)
  have resp2: "wire_response m = (?A @ wire_answers before) @ wire_rr r @ ?B"
    by (simp add: resp)
  have le: "0 + length before \<le> ?n" and lt: "length before < ?n"
    using assms(2) by simp_all
  have e: "parseHTTPSRecord (wire_rdata (rr_data r)) = Some (EncodeToString v)"
    by (rule ech_record[OF wfs(2) assms(4,5,6)])
  have ty: "rdata_type (rr_data r) = TypeHTTPS" using assms(4) by (simp add: TypeHTTPS_def)
  have "parseDNSResponse (wire_response m) = answerLoop (wire_response m) ?n 0 (length ?A)"
    using parseDNSResponse_wire[OF assms(1)] ne by simp
  also have "\<dots> = answerLoop (wire_response m) ?n (0 + length before)
                     (length ?A + length (wire_answers before))"
    unfolding resp by (rule answerLoop_skip[OF wfs(1) assms(3) le])
  also have "\<dots> = answerLoop ((?A @ wire_answers before) @ wire_rr r @ ?B) ?n (length before)
                     (length (?A @ wire_answers before))"
    by (simp add: resp2)
  also have "\<dots> = Some (EncodeToString v, None)"
    using answerLoop_rr[OF wfs(2) lt e, of "?A @ wire_answers before" ?B] ty
      EncodeToString_nonempty[OF assms(6)] by simp
  finally show ?thesis .
qed

lemma encode_example: "EncodeToString [1, 2, 3] = ''AQID''"
  by (simp add: enc_def encodeStd_def)

lemma wf_response_with_ech: "wf_response response_with_ech"
  by (simp add: response_with_ech_def wf_response_def wf_rr_def wf_labels_def
      wire_params_def wire_param_def be16_def)

lemma parse_response_with_ech:
  "parseDNSResponse (wire_response response_with_ech) = Some (''AQID'', None)"
proof -
  let ?r = "\<lparr>rr_name = PointerForm 12, rr_class = 1, rr_ttl = 60,
          rr_data = HTTPSData 1 []
            ([\<lparr>sp_key = 1, sp_value = [2, 0x68, 0x32]\<rparr>] @ \<lparr>sp_key = 5, sp_value = [1, 2, 3]\<rparr> # [])\<rparr>"
  let ?b = "[\<lparr>rr_name = PointerForm 12, rr_class = 1, rr_ttl = 60, rr_data = OpaqueData 5 [1, 0x62, 0]\<rparr>]"
  have h2: "msg_answers response_with_ech = ?b @ ?r # []"
    by (simp add: response_with_ech_def)
  have h3: "\<not> list_ex carries_ech ?b" by simp
  have h4: "rr_data ?r = HTTPSData 1 []
            ([\<lparr>sp_key = 1, sp_value = [2, 0x68, 0x32]\<rparr>] @ \<lparr>sp_key = 5, sp_value = [1, 2, 3]\<rparr> # [])"
    by simp
  have h5: "list_all (\<lambda>p. sp_key p \<noteq> 5 \<and> sp_value p \<noteq> []) [\<lparr>sp_key = 1, sp_value = [2, 0x68, 0x32]\<rparr>]"
    by simp
  have h6: "[1, 2, 3 :: byte] \<noteq> []" by simp
  show ?thesis
    using parseDNSResponse_first_ech[OF wf_response_with_ech h2 h3 h4 h5 h6]
    unfolding encode_example .
qed

lemma parse_response_with_address_only:
  "parseDNSResponse (wire_response response_with_address_only) = Some ([], None)"
  by code_simp

section \<open>The ECH store\<close>

lemma queryDoH_total: "\<exists>r. queryDoH net domain url = Some r"
  using parseDNSResponse_total
  by (auto simp: queryDoH_def split: doh_exchange.splits sum.splits)

lemma Prepare_total: "\<exists>r m'. Prepare decode net m = Some (r, m')"
proof -
  obtain b e where q: "queryHTTPSRecord net (echDomain m) (dnsServer m) = Some (b, e)"
    using queryDoH_total unfolding queryHTTPSRecord_def Let_def by (metis surj_pair)
  show ?thesis
    by (cases e; cases "decode b") (simp_all add: Prepare_def q)
qed

lemma Prepare_failure:
  assumes "Prepare decode net m = Some (Some err, m')"
  shows "m' = m"
  using assms
  by (auto simp: Prepare_def split: option.splits prod.splits if_splits sum.splits)

lemma Prepare_success:
  assumes "Prepare decode net m = Some (None, m')"
  shows "\<exists>b raw. queryHTTPSRecord net (echDomain m) (dnsServer m) = Some (b, None) \<and> b \<noteq> []
           \<and> decode b = Inr raw \<and> m' = m\<lparr>echList := raw\<rparr>"
  using assms
  by (auto simp: Prepare_def split: option.splits prod.splits if_splits sum.splits)

section \<open>The retry loop of the dialer\<close>

lemma attemptLoop_build_retry:
  assumes "attempt < maxRetries"
    and "BuildTLSConfig (SystemCertPool E attempt) h (manager s) = Inl e"
    and "Contains (Error e) substrECHConfig \<or> Contains (Error e) substrECHNotFound"
    and "refreshAndSleep E attempt 500 s = Some s'"
  shows "attemptLoop E c h url maxRetries attempt lastErr s
         = attemptLoop E c h url maxRetries (attempt + 1) (Some e) s'"
  using assms by (subst attemptLoop.simps) (simp add: Let_def)

lemma attemptLoop_build_fatal:
  assumes "attempt \<le> maxRetries"
    and "BuildTLSConfig (SystemCertPool E attempt) h (manager s) = Inl e"
    and "\<not> (attempt < maxRetries \<and>
            (Contains (Error e) substrECHConfig \<or> Contains (Error e) substrECHNotFound))"
  shows "attemptLoop E c h url maxRetries attempt lastErr s = Some (Inl (ErrBuildTLS e), s)"
  using assms by (subst attemptLoop.simps) (auto simp add: Let_def)

lemma attemptLoop_dial_retry:
  assumes "attempt < maxRetries"
    and "BuildTLSConfig (SystemCertPool E attempt) h (manager s) = Inr cfg"
    and "Dial E attempt = Inl e"
    and "Contains (Error e) ''ECH'' \<or> Contains (Error e) ''encrypted''"
    and "refreshAndSleep E attempt 1000 (s\<lparr>trace := trace s @ [Dialed url (Subprotocols c)]\<rparr>) = Some s'"
  shows "attemptLoop E c h url maxRetries attempt lastErr s
         = attemptLoop E c h url maxRetries (attempt + 1) (Some e) s'"
  using assms by (subst attemptLoop.simps) (simp add: Let_def)

lemma attemptLoop_dial_fatal:
  assumes "attempt \<le> maxRetries"
    and "BuildTLSConfig (SystemCertPool E attempt) h (manager s) = Inr cfg"
    and "Dial E attempt = Inl e"
    and "\<not> (attempt < maxRetries \<and> (Contains (Error e) ''ECH'' \<or> Contains (Error e) ''encrypted''))"
  shows "attemptLoop E c h url maxRetries attempt lastErr s
         = Some (Inl (ErrWSDial e), s\<lparr>trace := trace s @ [Dialed url (Subprotocols c)]\<rparr>)"
  using assms by (subst attemptLoop.simps) (auto simp add: Let_def)

lemma attemptLoop_connected:
  assumes "attempt \<le> maxRetries"
    and "BuildTLSConfig (SystemCertPool E attempt) h (manager s) = Inr cfg"
    and "Dial E attempt = Inr conn"
  shows "attemptLoop E c h url maxRetries attempt lastErr s
         = Some (Inr conn, s\<lparr>trace := trace s @ [Dialed url (Subprotocols c)]\<rparr>)"
  using assms by (subst attemptLoop.simps) (simp add: Let_def)

lemma refreshAndSleep_total:
  "\<exists>r m'. refreshAndSleep E attempt ms s
           = Some \<lparr>manager = m', trace = trace s @ [Refreshed r, Slept ms]\<rparr>"
proof -
  obtain r m' where "Prepare (DecodeString E) (doh E attempt) (manager s) = Some (r, m')"
    using Prepare_total by blast
  then show ?thesis by (auto simp: refreshAndSleep_def Refresh_def)
qed

lemma refreshAndSleep_trace:
  assumes "refreshAndSleep E attempt ms s = Some s'"
  shows "\<exists>r. trace s' = trace s @ [Refreshed r, Slept ms]"
  using assms by (auto simp: refreshAndSleep_def split: option.splits prod.splits)

lemma attemptLoop_not_exhausted:
  assumes "attempt \<le> maxRetries"
  shows "attemptLoop E c h url maxRetries attempt lastErr s \<noteq> Some (Inl (ErrMaxRetries n e), s'')"
  using assms
proof (induction "nat (maxRetries - attempt)" arbitrary: attempt lastErr s)
  case 0
  then have eq: "attempt = maxRetries" by simp
  show ?case
    by (subst attemptLoop.simps)
       (auto simp add: eq Let_def split: sum.splits option.splits)
next
  case (Suc k)
  have IH: "attemptLoop E c h url maxRetries (attempt + 1) l t \<noteq> Some (Inl (ErrMaxRetries n e), s'')"
    for l t
    using Suc.hyps(1)[of "attempt + 1" l t] Suc.hyps(2) by simp
  show ?case
    using Suc.prems IH
    by (subst attemptLoop.simps)
       (auto simp add: Let_def split: sum.splits option.splits)
qed

lemma DialWithECH_not_exhausted:
  assumes "1 \<le> maxRetries"
  shows "DialWithECH E c maxRetries s \<noteq> Some (Inl (ErrMaxRetries n e), s'')"
  using attemptLoop_not_exhausted[OF assms]
  by (auto simp: DialWithECH_def Let_def split: sum.splits prod.splits)

section \<open>The relay session\<close>

lemma cleanup_closed: "isClosed s \<Longrightarrow> cleanup s = s"
  by (simp add: cleanup_def)

lemma cleanup_open:
  assumes "\<not> isClosed s"
  shows "cleanup s = s\<lparr>remoteSocket := None, remoteWriter := None, remoteReader := None,
                      isClosed := True, isConnecting := False, effects := effects s @ held s\<rparr>"
  using assms
  by (cases "remoteWriter s"; cases "remoteReader s"; cases "remoteSocket s")
     (simp_all add: cleanup_def Let_def releaseWriter_def releaseReader_def closeSocket_def
        safeCloseWebSocket_def does_def held_def)


lemma restarts_held: "restarts (es @ held s) = restarts es"
  by (cases "remoteWriter s"; cases "remoteReader s"; cases "remoteSocket s")
     (simp_all add: held_def restarts_def)

lemma held_does [simp]: "held (does e s) = held s"
  by (simp add: held_def does_def)

lemma held_effects [simp]: "held (s\<lparr>effects := es\<rparr>) = held s"
  by (simp add: held_def)

lemma held_pump [simp]: "held (s\<lparr>pump := p\<rparr>) = held s"
  by (simp add: held_def)





lemma session_connected_eq:
  "session_connected =
     \<lparr>remoteSocket = Some 0, remoteWriter = Some 0, remoteReader = Some 0, isClosed = False,
      isConnecting = False, connectionAttempts = 0, readyState = 1, sockets = 1, pump = AwaitRead,
      effects = [SocketOpened 0 ''example.com'' 443, WriterAcquired 0, ReaderAcquired 0,
                 WsSent (Text ''CONNECTED'')]\<rparr>"
  by (simp add: session_connected_def handleSession_def onMessage_def piece_def connectToRemote_def
      attemptTry_def established_def parseAddress_def isSeparator_def parseInt_def ToString_def
      isWhiteSpace_def isDigit_def digitValue_def does_def
      pumpRemoteToWebSocket_def pumpLoop_def Let_def)

lemma connectToRemote_busy:
  "isConnecting s \<or> remoteSocket s \<noteq> None
   \<Longrightarrow> connectToRemote outcomes targetAddr firstFrameData proxyIP s = (Some msgAlreadyConnecting, s)"
  by (simp add: connectToRemote_def)

lemma onMessage_second_connect:
  assumes "\<not> isClosed s" and "isConnecting s \<or> remoteSocket s \<noteq> None"
    and "prefix ''CONNECT:'' str"
    and "drop 8 (piece (splitAt (\<lambda>c. c = CHR ''|'') str) 0) \<noteq> []"
  shows "step s (MessageEvent (StringData str) outcomes wr)
         = s\<lparr>remoteSocket := None, remoteWriter := None, remoteReader := None, isClosed := True,
             isConnecting := False,
             effects := effects s @ WsSent (Text (''ERROR:'' @ msgAlreadyConnecting)) # held s\<rparr>"
proof -
  have "step s (MessageEvent (StringData str) outcomes wr)
        = onMessageCatch msgAlreadyConnecting s"
    using assms by (simp add: onMessage_def Let_def connectToRemote_busy)
  also have "\<dots> = cleanup (does (WsSent (Text (''ERROR:'' @ msgAlreadyConnecting))) s)"
    by (simp add: onMessageCatch_def)
  also have "\<dots> = s\<lparr>remoteSocket := None, remoteWriter := None, remoteReader := None, isClosed := True,
             isConnecting := False,
             effects := effects s @ WsSent (Text (''ERROR:'' @ msgAlreadyConnecting)) # held s\<rparr>"
    using assms(1) by (subst cleanup_open) (simp_all add: does_def)
  finally show ?thesis .
qed

lemma second_connect_target:
  "prefix ''CONNECT:'' ''CONNECT:other.example:80''
   \<and> drop 8 (piece (splitAt (\<lambda>c. c = CHR ''|'') ''CONNECT:other.example:80'') 0) = ''other.example:80''"
  by (simp add: piece_def)

lemma restarts_append [simp]: "restarts (xs @ ys) = restarts xs + restarts ys"
  by (simp add: restarts_def)

lemma restarts_Nil [simp]: "restarts [] = 0"
  by (simp add: restarts_def)

lemma restarts_Cons [simp]: "restarts (e # es) = (if e = PumpRestarted then 1 else 0) + restarts es"
  by (simp add: restarts_def)

lemma restarts_held_0 [simp]: "restarts (held s) = 0"
  using restarts_held[of "[]" s] by simp

lemma session_inv_cleanup: "session_inv s \<Longrightarrow> session_inv (cleanup s)"
  by (cases "isClosed s") (simp_all add: cleanup_closed cleanup_open session_inv_def)

lemma session_inv_does:
  "e \<noteq> PumpRestarted \<Longrightarrow> session_inv (does e s) = session_inv s"
  by (simp add: does_def session_inv_def)

lemma session_inv_pumpAfter: "session_inv s \<Longrightarrow> session_inv (pumpAfter s)"
proof -
  assume i: "session_inv s"
  then have p: "session_inv (s\<lparr>pump := NoPump\<rparr>)" by (auto simp add: session_inv_def)
  show ?thesis
    using p by (simp add: pumpAfter_def Let_def session_inv_cleanup session_inv_does)
qed

lemma session_inv_pumpLoop:
  assumes "session_inv s" and "\<not> isClosed s \<longrightarrow> remoteSocket s \<noteq> None"
  shows "session_inv (pumpLoop s)"
proof (cases "\<not> isClosed s \<and> remoteReader s \<noteq> None")
  case True
  then show ?thesis using assms by (auto simp add: pumpLoop_def session_inv_def)
next
  case False
  then show ?thesis using assms(1) by (auto simp add: pumpLoop_def session_inv_pumpAfter)
qed

lemma session_inv_pumpCatch:
  assumes "session_inv s" and "\<not> isClosed s \<longrightarrow> remoteSocket s \<noteq> None"
  shows "session_inv (pumpCatch s)"
proof (cases "\<not> isClosed s \<and> connectionAttempts s < 3")
  case True
  then show ?thesis using assms by (auto simp add: pumpCatch_def Let_def does_def session_inv_def)
next
  case False
  then show ?thesis using assms(1) by (auto simp add: pumpCatch_def session_inv_pumpAfter)
qed

lemma session_inv_open_socket:
  "session_inv s \<Longrightarrow> pump s \<noteq> NoPump \<Longrightarrow> \<not> isClosed s \<longrightarrow> remoteSocket s \<noteq> None"
  by (auto simp add: session_inv_def)

lemma session_inv_pumpOnRead:
  assumes "session_inv s" and "pump s = AwaitRead"
  shows "session_inv (pumpOnRead r sendThrows s)"
proof -
  have o: "\<not> isClosed s \<longrightarrow> remoteSocket s \<noteq> None"
    using session_inv_open_socket[OF assms(1)] assms(2) by simp
  have d: "session_inv (does (WsSent (Binary bytes)) s)" for bytes
    using assms(1) by (simp add: session_inv_does)
  have od: "\<not> isClosed (does (WsSent (Binary bytes)) s) \<longrightarrow> remoteSocket (does (WsSent (Binary bytes)) s) \<noteq> None"
    for bytes
    using o by (simp add: does_def)
  show ?thesis
    using assms(1) o d od
    by (auto simp add: pumpOnRead_def Let_def session_inv_pumpCatch session_inv_pumpLoop
        session_inv_pumpAfter split: read_result.splits option.splits)
qed

lemma session_inv_pumpOnDelay:
  assumes "session_inv s" and "pump s = AwaitDelay"
  shows "session_inv (pumpOnDelay readable getReaderThrows s)"
proof (cases "remoteSocket s")
  case None
  then show ?thesis using assms(1) by (simp add: pumpOnDelay_def session_inv_pumpAfter)
next
  case (Some k)
  show ?thesis
  proof (cases "readable \<and> \<not> getReaderThrows")
    case False
    then show ?thesis using assms(1) Some by (auto simp add: pumpOnDelay_def session_inv_pumpAfter)
  next
    case True
    have nc: "\<not> isClosed s" using assms(1) Some by (auto simp add: session_inv_def)
    have "pumpOnDelay readable getReaderThrows s
          = s\<lparr>remoteReader := Some k, pump := AwaitRead,
               effects := effects s @ [ReaderAcquired k, PumpRestarted]\<rparr>"
      using True Some nc
      by (simp add: pumpOnDelay_def pumpRemoteToWebSocket_def pumpLoop_def does_def)
    then show ?thesis using assms Some nc by (auto simp add: session_inv_def)
  qed
qed

lemma unconnected_inv: "unconnected s \<Longrightarrow> session_inv s"
  by (auto simp add: unconnected_def session_inv_def)

lemma unconnected_attemptCleanup: "unconnected s \<Longrightarrow> unconnected (attemptCleanup s)"
  by (cases "remoteWriter s"; cases "remoteReader s"; cases "remoteSocket s")
     (simp_all add: attemptCleanup_def Let_def releaseWriter_def releaseReader_def closeSocket_def
        does_def unconnected_def)

lemma attemptTry_fails:
  assumes "unconnected s" and "attemptTry outcome h p f s = Inl (err, s')"
  shows "unconnected s'"
  using assms
  by (cases outcome)
     (auto simp add: attemptTry_def Let_def does_def unconnected_def split: if_splits)

lemma attemptTry_returns:
  assumes "unconnected s" and "attemptTry outcome h p f s = Inr s'"
  shows "session_inv s' \<and> \<not> isClosed s' \<and> remoteSocket s' \<noteq> None"
  using assms
  by (cases outcome)
     (auto simp add: attemptTry_def Let_def does_def unconnected_def session_inv_def
        pumpRemoteToWebSocket_def pumpLoop_def split: if_splits)

lemma attemptsLoop_inv:
  assumes "unconnected s" and "attemptsLoop outcomes original f i attempts s = (r, s')"
    and "attempts \<noteq> []"
  shows "(r = None \<longrightarrow> session_inv s' \<and> \<not> isClosed s' \<and> remoteSocket s' \<noteq> None)
         \<and> (r \<noteq> None \<longrightarrow> unconnected s')"
  using assms
proof (induction attempts arbitrary: i s)
  case Nil
  then show ?case by simp
next
  case (Cons a attempts)
  obtain h p where hp:
    "(case a of None \<Rightarrow> (host original, port original)
      | Some fallback \<Rightarrow> (let parsed = parseAddress fallback in (host parsed, port parsed))) = (h, p)"
    by (metis surj_pair)
  show ?case
  proof (cases "attemptTry (outcomes i) h p f s")
    case (Inr s1)
    then have "r = None" "s' = s1" using Cons.prems(2) hp by simp_all
    then show ?thesis using attemptTry_returns[OF Cons.prems(1) Inr] by simp
  next
    case (Inl es)
    obtain err s1 where es: "es = (err, s1)" by (metis surj_pair)
    have u1: "unconnected (attemptCleanup s1)"
      using attemptTry_fails[OF Cons.prems(1)] Inl es unconnected_attemptCleanup by blast
    show ?thesis
    proof (cases "\<not> isCFError err \<or> attempts = []")
      case True
      then have "r = Some err" "s' = attemptCleanup s1"
        using Cons.prems(2) hp Inl es by (simp_all add: Let_def)
      then show ?thesis using u1 by simp
    next
      case False
      then have "attemptsLoop outcomes original f (i + 1) attempts (attemptCleanup s1) = (r, s')"
        using Cons.prems(2) hp Inl es by (simp add: Let_def)
      then show ?thesis using False by (intro Cons.IH[OF u1]) simp_all
    qed
  qed
qed

lemma connectToRemote_inv:
  assumes "session_inv s" and "\<not> isClosed s"
    and "connectToRemote outcomes targetAddr f proxyIP s = (r, s')"
  shows "session_inv s' \<and> \<not> isClosed s'"
proof (cases "isConnecting s \<or> remoteSocket s \<noteq> None")
  case True
  then show ?thesis using assms by (simp add: connectToRemote_busy)
next
  case False
  let ?s1 = "s\<lparr>isConnecting := True, connectionAttempts := 0\<rparr>"
  let ?attempts = "None # map Some (if proxyIP \<noteq> [] then [proxyIP] else [])"
  have u: "unconnected ?s1"
    using False assms(1,2) by (auto simp add: unconnected_def session_inv_def)
  obtain r1 s1 where l: "attemptsLoop outcomes (parseAddress targetAddr) f 0 ?attempts ?s1 = (r1, s1)"
    by (metis surj_pair)
  have a: "(r1 = None \<longrightarrow> session_inv s1 \<and> \<not> isClosed s1 \<and> remoteSocket s1 \<noteq> None)
         \<and> (r1 \<noteq> None \<longrightarrow> unconnected s1)"
    by (rule attemptsLoop_inv[OF u l]) simp
  show ?thesis
  proof (cases r1)
    case None
    then have "s' = s1" using assms(3) False l by (simp add: connectToRemote_def Let_def)
    then show ?thesis using a None by simp
  next
    case (Some err)
    then have s': "s' = s1\<lparr>isConnecting := False\<rparr>"
      using assms(3) False l by (simp add: connectToRemote_def Let_def)
    have "unconnected s1" using a Some by simp
    then have "unconnected s'" unfolding s' by (simp add: unconnected_def)
    then show ?thesis using unconnected_inv by (auto simp add: unconnected_def)
  qed
qed

lemma session_inv_onMessageCatch: "session_inv s \<Longrightarrow> session_inv (onMessageCatch message s)"
  by (simp add: onMessageCatch_def session_inv_cleanup session_inv_does)

lemma session_inv_writerWrite: "session_inv s \<Longrightarrow> session_inv (writerWrite rejects bytes s)"
  by (auto simp add: writerWrite_def Let_def session_inv_onMessageCatch session_inv_does
      split: option.splits)

lemma session_inv_onMessage:
  assumes "session_inv s"
  shows "session_inv (onMessage data outcomes writeRejects s)"
proof (cases "isClosed s")
  case True
  then show ?thesis using assms by (simp add: onMessage_def)
next
  case False
  show ?thesis
  proof (cases data)
    case (ArrayBufferData bytes)
    then show ?thesis using assms False by (simp add: onMessage_def session_inv_writerWrite)
  next
    case OtherValue
    then show ?thesis using assms False by (simp add: onMessage_def)
  next
    case (StringData str)
    let ?parts = "splitAt (\<lambda>c. c = CHR ''|'') str"
    obtain r s' where c: "connectToRemote outcomes (drop 8 (piece ?parts 0)) (piece ?parts 1)
                            (piece ?parts 2) s = (r, s')"
      by (metis surj_pair)
    have i': "session_inv s'" using connectToRemote_inv[OF assms False c] by simp
    show ?thesis
      using assms False StringData c i'
      by (cases r)
         (auto simp add: onMessage_def Let_def session_inv_onMessageCatch session_inv_writerWrite
            session_inv_cleanup)
  qed
qed

lemma session_inv_step:
  assumes "session_inv s"
  shows "session_inv (step s e)"
proof (cases e)
  case (ReadyStateChanged n)
  then show ?thesis using assms by (simp add: session_inv_def)
qed (simp_all add: assms session_inv_onMessage session_inv_cleanup session_inv_pumpOnRead
      session_inv_pumpOnDelay)

lemma session_inv_run: "session_inv s \<Longrightarrow> session_inv (run s evs)"
  unfolding run_def by (induction evs arbitrary: s) (simp_all add: session_inv_step)

lemma session_inv_handleSession: "session_inv (handleSession n)"
  by (simp add: handleSession_def session_inv_def)

lemma pumpAfter_closed: "isClosed s \<Longrightarrow> pumpAfter s = s\<lparr>pump := NoPump\<rparr>"
  by (simp add: pumpAfter_def Let_def)

lemma pumpAfter_open:
  assumes "\<not> isClosed s"
  shows "pumpAfter s = s\<lparr>remoteSocket := None, remoteWriter := None, remoteReader := None,
                        isClosed := True, isConnecting := False, pump := NoPump,
                        effects := effects s @ WsSent (Text ''CLOSE'') # held s\<rparr>"
  using assms by (simp add: pumpAfter_def Let_def cleanup_open does_def)

lemma closed_step:
  assumes "session_inv s" and "isClosed s"
  shows "isClosed (step s e) \<and> restarts (effects (step s e)) = restarts (effects s)"
proof (cases e)
  case (MessageEvent data outcomes wr)
  then show ?thesis using assms(2) by (simp add: onMessage_def)
next
  case CloseEvent
  then show ?thesis using assms(2) by (simp add: cleanup_closed)
next
  case ErrorEvent
  then show ?thesis using assms(2) by (simp add: cleanup_closed)
next
  case (ReadSettled r sendThrows)
  then show ?thesis using assms(2)
    by (auto simp add: pumpOnRead_def pumpCatch_def pumpLoop_def pumpAfter_closed does_def Let_def
        split: read_result.splits option.splits)
next
  case (DelayElapsed readable getReaderThrows)
  have "remoteSocket s = None" using assms by (simp add: session_inv_def)
  then show ?thesis using assms(2) DelayElapsed
    by (simp add: pumpOnDelay_def pumpAfter_closed)
next
  case (ReadyStateChanged n)
  then show ?thesis using assms(2) by simp
qed

lemma closed_run:
  assumes "session_inv s" and "isClosed s"
  shows "isClosed (run s evs) \<and> restarts (effects (run s evs)) = restarts (effects s)"
  using assms unfolding run_def
proof (induction evs arbitrary: s)
  case Nil
  then show ?case by simp
next
  case (Cons e evs)
  note c = closed_step[OF Cons.prems, of e]
  have i: "session_inv (step s e)" by (rule session_inv_step[OF Cons.prems(1)])
  from c have cl: "isClosed (step s e)" by simp
  show ?case using Cons.IH[OF i cl] c by simp
qed

lemma restarts_bounded: "restarts (effects (run (handleSession n) evs)) \<le> 3"
proof -
  have "session_inv (run (handleSession n) evs)"
    by (rule session_inv_run[OF session_inv_handleSession])
  then show ?thesis by (simp add: session_inv_def)
qed

lemma read_error_schedules_restart:
  assumes "pump s = AwaitRead" "\<not> isClosed s" "connectionAttempts s < 3"
  shows "step s (ReadSettled ReadRejects b)
         = s\<lparr>connectionAttempts := connectionAttempts s + 1, pump := AwaitDelay,
             effects := effects s @ [TimerSet (1000 * (connectionAttempts s + 1))]\<rparr>"
  using assms by (simp add: pumpOnRead_def pumpCatch_def Let_def does_def)

lemma read_error_exhausted:
  assumes "pump s = AwaitRead" "\<not> isClosed s" "3 \<le> connectionAttempts s"
  shows "step s (ReadSettled ReadRejects b)
         = s\<lparr>remoteSocket := None, remoteWriter := None, remoteReader := None,
             isClosed := True, isConnecting := False, pump := NoPump,
             effects := effects s @ WsSent (Text ''CLOSE'') # held s\<rparr>"
  using assms by (simp add: pumpOnRead_def pumpCatch_def pumpAfter_open)

lemma delay_without_socket:
  assumes "pump s = AwaitDelay" "\<not> isClosed s"
    and "remoteSocket s = None \<or> \<not> readable \<or> getReaderThrows"
  shows "step s (DelayElapsed readable getReaderThrows)
         = s\<lparr>remoteSocket := None, remoteWriter := None, remoteReader := None,
             isClosed := True, isConnecting := False, pump := NoPump,
             effects := effects s @ WsSent (Text ''CLOSE'') # held s\<rparr>"
  using assms by (cases "remoteSocket s") (auto simp add: pumpOnDelay_def pumpAfter_open)

lemma delay_restarts:
  assumes "pump s = AwaitDelay" "\<not> isClosed s" "remoteSocket s = Some k"
  shows "step s (DelayElapsed True False)
         = s\<lparr>remoteReader := Some k, pump := AwaitRead,
             effects := effects s @ [ReaderAcquired k, PumpRestarted]\<rparr>"
  using assms by (simp add: pumpOnDelay_def pumpRemoteToWebSocket_def pumpLoop_def does_def)

lemma session_restarted_thrice_eq:
  "session_restarted_thrice =
     \<lparr>remoteSocket = Some 0, remoteWriter = Some 0, remoteReader = Some 0, isClosed = False,
      isConnecting = False, connectionAttempts = 3, readyState = 1, sockets = 1, pump = AwaitRead,
      effects = [SocketOpened 0 ''example.com'' 443, WriterAcquired 0, ReaderAcquired 0,
                 WsSent (Text ''CONNECTED''),
                 TimerSet 1000, ReaderAcquired 0, PumpRestarted,
                 TimerSet 2000, ReaderAcquired 0, PumpRestarted,
                 TimerSet 3000, ReaderAcquired 0, PumpRestarted]\<rparr>"
  by (simp add: session_restarted_thrice_def run_def session_connected_eq failed_read_def
      delay_over_def pumpOnRead_def pumpCatch_def pumpOnDelay_def pumpRemoteToWebSocket_def
      pumpLoop_def does_def Let_def)

lemma failing_session_prefix:
  "run (handleSession 1) failing_session = step session_restarted_thrice failed_read"
  by (simp add: failing_session_def run_def session_restarted_thrice_def session_connected_def)

lemma closed_step_closing:
  assumes "isClosed s"
  shows "isClosed (step s e) \<and> filter closing (effects (step s e)) = filter closing (effects s)"
proof (cases e)
  case (MessageEvent data outcomes wr)
  then show ?thesis using assms by (simp add: onMessage_def)
next
  case CloseEvent
  then show ?thesis using assms by (simp add: cleanup_closed)
next
  case ErrorEvent
  then show ?thesis using assms by (simp add: cleanup_closed)
next
  case (ReadSettled r sendThrows)
  then show ?thesis using assms
    by (auto simp add: pumpOnRead_def pumpCatch_def pumpLoop_def pumpAfter_closed does_def Let_def
        split: read_result.splits option.splits)
next
  case (DelayElapsed readable getReaderThrows)
  then show ?thesis using assms
    by (auto simp add: pumpOnDelay_def pumpRemoteToWebSocket_def pumpLoop_def pumpAfter_closed
        does_def split: option.splits)
next
  case (ReadyStateChanged n)
  then show ?thesis using assms by simp
qed


section \<open>The relay session with handlers that wait\<close>

subsection \<open>A CONNECT message for a busy session, and an attempt that goes on after cleanup\<close>

lemma msgNullWritable_length: "length msgNullWritable = 51"
  by (simp add: msgNullWritable_def)


lemma connectBegin_busy:
  "isConnecting s \<or> remoteSocket s \<noteq> None
   \<Longrightarrow> connectBegin outcomes targetAddr firstFrameData proxyIP s = (Throws msgAlreadyConnecting, s)"
  by (simp add: connectBegin_def)

lemma listener_second_connect:
  assumes "\<not> isClosed (vars r)" and "isConnecting (vars r) \<or> remoteSocket (vars r) \<noteq> None"
    and "prefix ''CONNECT:'' str"
    and "drop 8 (piece (splitAt (\<lambda>c. c = CHR ''|'') str) 0) \<noteq> []"
  shows "deliver r (OnMessage (StringData str) outcomes)
         = r\<lparr>vars := (vars r)\<lparr>remoteSocket := None, remoteWriter := None, remoteReader := None,
                 isClosed := True, isConnecting := False,
                 effects := effects (vars r)
                            @ WsSent (Text (''ERROR:'' @ msgAlreadyConnecting)) # held (vars r)\<rparr>\<rparr>"
proof -
  have "deliver r (OnMessage (StringData str) outcomes)
        = r\<lparr>vars := onMessageCatch msgAlreadyConnecting (vars r)\<rparr>"
    using assms by (simp add: listener_def Let_def connectBegin_busy started_def)
  also have "onMessageCatch msgAlreadyConnecting (vars r)
        = (vars r)\<lparr>remoteSocket := None, remoteWriter := None, remoteReader := None,
                 isClosed := True, isConnecting := False,
                 effects := effects (vars r)
                            @ WsSent (Text (''ERROR:'' @ msgAlreadyConnecting)) # held (vars r)\<rparr>"
    unfolding onMessageCatch_def using assms(1) by (subst cleanup_open) (simp_all add: does_def)
  finally show ?thesis .
qed

lemma attemptCleanup_cleared:
  assumes "remoteSocket s = None" "remoteWriter s = None" "remoteReader s = None"
  shows "attemptCleanup s = s"
  using assms
  by (simp add: attemptCleanup_def Let_def releaseWriter_def releaseReader_def closeSocket_def)





lemma pumpRemoteToWebSocket_closed:
  "isClosed s \<Longrightarrow> pumpRemoteToWebSocket s = s\<lparr>pump := NoPump\<rparr>"
  by (simp add: pumpRemoteToWebSocket_def pumpLoop_def pumpAfter_def Let_def)



subsection \<open>Handlers that are not interrupted\<close>

text \<open>
  \<open>attemptTry\<close> is its pieces one after the other, and so is the loop: a message whose
  handler is not interrupted does to the session what \<open>onMessage\<close> does, and a run of
  such events does what \<open>run\<close> does.
\<close>

lemma settle_idle: "waiting r = [] \<Longrightarrow> writes r = 0 \<Longrightarrow> settle outcomes wr n r = r"
  by (cases n) simp_all

lemma settle_idle_relay: "settle outcomes wr n (idle s) = idle s"
  by (simp add: settle_idle idle_def)

lemma attemptTry_pieces:
  "attemptTry oc h p f s =
     (case attemptConnect oc h p s of
        (Throws e, s1) \<Rightarrow> Inl (e, s1)
      | (Returns, s1) \<Rightarrow> Inr s1
      | (Waits w, s1) \<Rightarrow>
          (case attemptOpened oc f s1 of
             (Throws e, s2) \<Rightarrow> Inl (e, s2)
           | (Returns, s2) \<Rightarrow> Inr s2
           | (Waits w, s2) \<Rightarrow>
               (case attemptWritten oc s2 of
                  (Throws e, s3) \<Rightarrow> Inl (e, s3)
                | (Returns, s3) \<Rightarrow> Inr s3
                | (Waits w, s3) \<Rightarrow> Inr s3)))"
  by (cases oc)
     (simp_all add: attemptTry_def attemptConnect_def attemptOpened_def attemptWritten_def
        attemptConnected_def Let_def does_def)

lemma attemptConnect_cases:
  "(\<exists>e. attemptConnect oc h p s = (Throws e, s) \<and> oc = ConnectThrows e)
   \<or> (\<exists>s1. attemptConnect oc h p s = (Waits AwaitOpened, s1))"
  by (cases oc) (simp_all add: attemptConnect_def Let_def)

lemma attemptOpened_cases:
  "(\<exists>e s1. attemptOpened oc f s = (Throws e, s1))
   \<or> (\<exists>s1. attemptOpened oc f s = (Returns, s1))
   \<or> (\<exists>s1. attemptOpened oc f s = (Waits AwaitWrite, s1))"
  by (cases oc; cases "remoteSocket s")
     (simp_all add: attemptOpened_def attemptConnected_def Let_def)

lemma attemptWritten_cases:
  "(\<exists>e s1. attemptWritten oc s = (Throws e, s1))
   \<or> (\<exists>s1. attemptWritten oc s = (Returns, s1))"
  by (cases oc) (simp_all add: attemptWritten_def attemptConnected_def Let_def)

lemma resumed_single:
  "resumed \<lparr>vars = s, waiting = [a], writes = 0\<rparr> 0 ps = started (idle x) ps"
  by (cases ps; cases "fst ps") (auto simp add: resumed_def started_def idle_def split: progress.splits)

lemma started_waits:
  "started (idle x) (connectCatch (Waits a, s)) = \<lparr>vars = s, waiting = [a], writes = 0\<rparr>"
  by (simp add: started_def idle_def connectCatch_def)

lemma started_returns:
  "started (idle x) (connectCatch (Returns, s)) = idle s"
  by (simp add: started_def idle_def connectCatch_def)

lemma started_throws:
  "started (idle x) (connectCatch (Throws e, s)) = idle (listened (Some e, s))"
  by (simp add: started_def idle_def connectCatch_def listened_def)

lemma settle_waiting:
  "settle outcomes wr (Suc n) \<lparr>vars = s, waiting = [a], writes = 0\<rparr>
   = settle outcomes wr n (started (idle s) (connectResume outcomes a s))"
  by (simp add: resumed_single[where x = s])

lemma attemptsLoop_settled:
  "2 * length attempts \<le> n \<Longrightarrow>
   settle outcomes wr n (started (idle x) (connectCatch (attemptsFrom outcomes original f i attempts s)))
   = idle (listened (attemptsLoop outcomes original f i attempts s))"
proof (induction attempts arbitrary: i s n x)
  case Nil
  show ?case by (simp add: started_returns settle_idle_relay listened_def)
next
  case (Cons a attempts)
  obtain h p where hp:
    "(case a of None \<Rightarrow> (host original, port original)
      | Some fallback \<Rightarrow> (let parsed = parseAddress fallback in (host parsed, port parsed))) = (h, p)"
    by (metis surj_pair)
  define K where "K = (\<lambda>e s'. let s1 = attemptCleanup s'
                       in if \<not> isCFError e \<or> attempts = [] then (Some e, s1)
                          else attemptsLoop outcomes original f (i + 1) attempts s1)"
  have loop: "attemptsLoop outcomes original f i (a # attempts) s
              = (case attemptTry (outcomes i) h p f s of Inr s' \<Rightarrow> (None, s') | Inl (e, s') \<Rightarrow> K e s')"
    by (simp add: hp K_def Let_def split: sum.splits prod.splits)
  have catch: "settle outcomes wr m (started (idle y) (connectCatch (attemptCatch outcomes original f i attempts e s')))
               = idle (listened (K e s'))" if "2 * length attempts \<le> m" for m y e s'
  proof (cases "\<not> isCFError e \<or> attempts = []")
    case True
    then show ?thesis by (simp add: K_def Let_def started_throws settle_idle_relay)
  next
    case False
    then show ?thesis using Cons.IH[OF that] by (simp add: K_def Let_def)
  qed
  obtain n1 where n: "n = Suc (Suc n1)" and n1: "2 * length attempts \<le> n1"
    using Cons.prems by (cases n; cases "n - 1") auto
  from attemptConnect_cases[of "outcomes i" h p s]
  show ?case
  proof (elim disjE exE conjE)
    fix e assume c: "attemptConnect (outcomes i) h p s = (Throws e, s)" "outcomes i = ConnectThrows e"
    have t: "attemptTry (outcomes i) h p f s = Inl (e, s)" by (simp add: attemptTry_pieces c(1))
    have al: "attemptsLoop outcomes original f i (a # attempts) s = K e s"
      unfolding loop t by simp
    have af: "attemptsFrom outcomes original f i (a # attempts) s = attemptCatch outcomes original f i attempts e s"
      by (simp add: hp c(1) del: attemptCatch.simps)
    have "2 * length attempts \<le> n" using n n1 by simp
    from catch[OF this, of x e s] show ?thesis
      unfolding al af .
  next
    fix s1 assume c: "attemptConnect (outcomes i) h p s = (Waits AwaitOpened, s1)"
    let ?a0 = "\<lparr>waitsAt = AwaitOpened, originalAddr = original, firstFrame = f, attemptNo = i, fallbacks = attempts\<rparr>"
    have f1: "attemptsFrom outcomes original f i (a # attempts) s = (Waits ?a0, s1)"
      by (simp add: hp c del: attemptCatch.simps)
    have st1: "settle outcomes wr n (started (idle x) (connectCatch (attemptsFrom outcomes original f i (a # attempts) s)))
          = settle outcomes wr (Suc n1) (started (idle s1) (connectResume outcomes ?a0 s1))"
      unfolding f1 started_waits n settle_waiting ..
    from attemptOpened_cases[of "outcomes i" f s1]
    show ?thesis
    proof (elim disjE exE)
      fix e s2 assume o: "attemptOpened (outcomes i) f s1 = (Throws e, s2)"
      have t: "attemptTry (outcomes i) h p f s = Inl (e, s2)" by (simp add: attemptTry_pieces c o)
      have al: "attemptsLoop outcomes original f i (a # attempts) s = K e s2"
        unfolding loop t by simp
      have cr: "connectResume outcomes ?a0 s1 = connectCatch (attemptCatch outcomes original f i attempts e s2)"
        by (simp add: connectResume_def o del: attemptCatch.simps)
      have "2 * length attempts \<le> Suc n1" using n1 by simp
      from catch[OF this, of s1 e s2] show ?thesis
        unfolding st1 al cr .
    next
      fix s2 assume o: "attemptOpened (outcomes i) f s1 = (Returns, s2)"
      have t: "attemptTry (outcomes i) h p f s = Inr s2" by (simp add: attemptTry_pieces c o)
      have al: "attemptsLoop outcomes original f i (a # attempts) s = (None, s2)"
        unfolding loop t by simp
      have cr: "connectResume outcomes ?a0 s1 = connectCatch (Returns, s2)"
        by (simp add: connectResume_def o del: attemptCatch.simps)
      show ?thesis
        unfolding st1 al cr started_returns settle_idle_relay by (simp add: listened_def)
    next
      fix s2 assume o: "attemptOpened (outcomes i) f s1 = (Waits AwaitWrite, s2)"
      let ?a1 = "?a0\<lparr>waitsAt := AwaitWrite\<rparr>"
      have r1: "connectResume outcomes ?a0 s1 = connectCatch (Waits ?a1, s2)"
        by (simp add: connectResume_def o del: attemptCatch.simps)
      have st2: "settle outcomes wr (Suc n1) (started (idle s1) (connectResume outcomes ?a0 s1))
            = settle outcomes wr n1 (started (idle s2) (connectResume outcomes ?a1 s2))"
        unfolding r1 started_waits settle_waiting ..
      from attemptWritten_cases[of "outcomes i" s2]
      show ?thesis
      proof (elim disjE exE)
        fix e s3 assume w: "attemptWritten (outcomes i) s2 = (Throws e, s3)"
        have t: "attemptTry (outcomes i) h p f s = Inl (e, s3)" by (simp add: attemptTry_pieces c o w)
        have al: "attemptsLoop outcomes original f i (a # attempts) s = K e s3"
          unfolding loop t by simp
        have cr: "connectResume outcomes ?a1 s2 = connectCatch (attemptCatch outcomes original f i attempts e s3)"
          by (simp add: connectResume_def w del: attemptCatch.simps)
        from catch[OF n1, of s2 e s3] show ?thesis
          unfolding st1 st2 al cr .
      next
        fix s3 assume w: "attemptWritten (outcomes i) s2 = (Returns, s3)"
        have t: "attemptTry (outcomes i) h p f s = Inr s3" by (simp add: attemptTry_pieces c o w)
        have al: "attemptsLoop outcomes original f i (a # attempts) s = (None, s3)"
          unfolding loop t by simp
        have cr: "connectResume outcomes ?a1 s2 = connectCatch (Returns, s3)"
          by (simp add: connectResume_def w del: attemptCatch.simps)
        show ?thesis
          unfolding st1 st2 al cr started_returns settle_idle_relay by (simp add: listened_def)
      qed
    qed
  qed
qed

lemma dataWrite_settled:
  "settle outcomes wr (Suc n) (dataWrite bytes (idle s)) = idle (writerWrite wr bytes s)"
  by (cases "remoteWriter s"; cases wr)
     (simp_all add: dataWrite_def writerWrite_def idle_def Let_def settle_idle)

lemma connectBegin_settled:
  "settle outcomes wr 4 (started (idle s) (connectBegin outcomes targetAddr f proxyIP s))
   = idle (case connectToRemote outcomes targetAddr f proxyIP s of
             (None, s') \<Rightarrow> s'
           | (Some err, s') \<Rightarrow> onMessageCatch err s')"
proof (cases "isConnecting s \<or> remoteSocket s \<noteq> None")
  case True
  then show ?thesis
    by (simp add: connectBegin_busy connectToRemote_busy started_def idle_def settle_idle)
next
  case False
  let ?s1 = "s\<lparr>isConnecting := True, connectionAttempts := 0\<rparr>"
  let ?attempts = "None # map Some (if proxyIP \<noteq> [] then [proxyIP] else [])"
  have l: "2 * length ?attempts \<le> 4" by simp
  have b: "connectBegin outcomes targetAddr f proxyIP s
           = connectCatch (attemptsFrom outcomes (parseAddress targetAddr) f 0 ?attempts ?s1)"
    using False by (simp add: connectBegin_def Let_def del: attemptsFrom.simps attemptCatch.simps)
  have c: "(case connectToRemote outcomes targetAddr f proxyIP s of
             (None, s') \<Rightarrow> s'
           | (Some err, s') \<Rightarrow> onMessageCatch err s')
           = listened (attemptsLoop outcomes (parseAddress targetAddr) f 0 ?attempts ?s1)"
    using False
    by (simp add: connectToRemote_def Let_def listened_def del: attemptsLoop.simps
        split: prod.splits option.splits)
  show ?thesis
    unfolding b c by (rule attemptsLoop_settled[OF l])
qed

lemma uninterrupted_onMessage:
  "uninterrupted data outcomes writeRejects (idle s) = idle (onMessage data outcomes writeRejects s)"
proof (cases "isClosed s")
  case True
  have v: "vars (idle s) = s" by (simp add: idle_def)
  from True show ?thesis
    by (simp add: uninterrupted_def listener_def onMessage_def v settle_idle_relay)
next
  case False
  have v: "vars (idle s) = s" by (simp add: idle_def)
  show ?thesis
  proof (cases data)
    case (ArrayBufferData bytes)
    then show ?thesis using False
      by (simp add: uninterrupted_def listener_def onMessage_def v dataWrite_settled
          numeral_eq_Suc del: settle.simps)
  next
    case OtherValue
    then show ?thesis using False
      by (simp add: uninterrupted_def listener_def onMessage_def v settle_idle_relay)
  next
    case (StringData str)
    let ?parts = "splitAt (\<lambda>c. c = CHR ''|'') str"
    show ?thesis
    proof (cases "prefix ''CONNECT:'' str")
      case True
      show ?thesis
      proof (cases "drop 8 (piece ?parts 0) = []")
        case t: True
        have "started (idle s) (Throws msgInvalidTarget, s) = idle (onMessageCatch msgInvalidTarget s)"
          by (simp add: started_def idle_def)
        then show ?thesis using False True t StringData
          by (simp add: uninterrupted_def listener_def onMessage_def v Let_def settle_idle_relay
              del: settle.simps)
      next
        case f: False
        show ?thesis using False True f StringData
          by (simp add: uninterrupted_def listener_def onMessage_def v Let_def connectBegin_settled
              del: settle.simps)
      qed
    next
      case nc: False
      show ?thesis
      proof (cases "prefix ''DATA:'' str")
        case True
        then show ?thesis using False nc StringData
          by (simp add: uninterrupted_def listener_def onMessage_def v dataWrite_settled
              numeral_eq_Suc del: settle.simps)
      next
        case nd: False
        have "idle s\<lparr>vars := cleanup s\<rparr> = idle (cleanup s)" by (simp add: idle_def)
        then show ?thesis using False nc nd StringData
          by (simp add: uninterrupted_def listener_def onMessage_def v settle_idle_relay
              del: settle.simps)
      qed
    qed
  qed
qed

lemma at_once_step: "at_once (idle s) e = idle (step s e)"
proof (cases e)
  case (MessageEvent data outcomes writeRejects)
  then show ?thesis by (simp add: uninterrupted_onMessage)
qed (simp_all add: idle_def)

lemma at_once_run: "foldl at_once (idle s) evs = idle (run s evs)"
  unfolding run_def by (induction evs arbitrary: s) (simp_all add: at_once_step)

subsection \<open>What holds after every event\<close>

text \<open>
  \<open>relay_inv\<close> holds of every run of the session with handlers that wait. So the pump
  restarts at most 3 times in such a session too; a closed session stays closed and
  restarts no pump, whatever follows; and a closed session none of whose attempts waits
  performs no further close operation.
\<close>

lemma quiet_refl [simp]: "quiet s s"
  by (simp add: quiet_def)

lemma quiet_trans: "quiet s s' \<Longrightarrow> quiet s' s'' \<Longrightarrow> quiet s s''"
  by (simp add: quiet_def)

lemma quiet_does: "e \<noteq> PumpRestarted \<Longrightarrow> quiet s (does e s)"
  by (simp add: quiet_def does_def)

lemma quiet_attemptCleanup: "quiet s (attemptCleanup s)"
  by (cases "remoteWriter s"; cases "remoteReader s"; cases "remoteSocket s")
     (simp_all add: attemptCleanup_def Let_def releaseWriter_def releaseReader_def closeSocket_def
        does_def quiet_def)

lemma attemptConnect_quiet:
  assumes "attemptConnect oc h p s = (pr, s')"
  shows "quiet s s' \<and> (\<forall>w. pr = Waits w \<longrightarrow> remoteSocket s' \<noteq> None) \<and> pr \<noteq> Returns"
  using assms by (cases oc) (auto simp add: attemptConnect_def Let_def does_def quiet_def)

lemma attemptConnected_quiet:
  assumes "attemptConnected oc s = (pr, s')"
  shows "(\<forall>w. pr \<noteq> Waits w)
         \<and> (\<forall>e. pr = Throws e \<longrightarrow> quiet s s')
         \<and> (pr = Returns \<longrightarrow>
              (\<exists>s''. quiet s s'' \<and> remoteSocket s'' = remoteSocket s \<and> s' = pumpRemoteToWebSocket s''))"
proof (cases "\<exists>e. oc = SendThrows e")
  case True
  then show ?thesis using assms by (auto simp add: attemptConnected_def Let_def does_def quiet_def)
next
  case False
  let ?s = "does (WsSent (Text ''CONNECTED'')) (s\<lparr>isConnecting := False\<rparr>)"
  have "attemptConnected oc s = (Returns, pumpRemoteToWebSocket ?s)"
    using False by (cases oc) (simp_all add: attemptConnected_def Let_def)
  moreover have "quiet s ?s \<and> remoteSocket ?s = remoteSocket s"
    by (simp add: does_def quiet_def)
  ultimately show ?thesis using assms by auto
qed

lemma attemptWritten_quiet:
  assumes "attemptWritten oc s = (pr, s')"
  shows "(\<forall>w. pr \<noteq> Waits w)
         \<and> (\<forall>e. pr = Throws e \<longrightarrow> quiet s s')
         \<and> (pr = Returns \<longrightarrow>
              (\<exists>s''. quiet s s'' \<and> remoteSocket s'' = remoteSocket s \<and> s' = pumpRemoteToWebSocket s''))"
proof (cases "\<exists>e. oc = WriteRejects e")
  case True
  then show ?thesis using assms by (auto simp add: attemptWritten_def)
next
  case False
  then have "attemptWritten oc s = attemptConnected oc s"
    by (cases oc) (simp_all add: attemptWritten_def)
  then show ?thesis using attemptConnected_quiet[of oc s pr s'] assms by simp
qed

lemma attemptOpened_quiet:
  assumes "attemptOpened oc f s = (pr, s')"
  shows "(\<forall>w. pr = Waits w \<longrightarrow> quiet s s' \<and> remoteSocket s' \<noteq> None)
         \<and> (\<forall>e. pr = Throws e \<longrightarrow> quiet s s')
         \<and> (pr = Returns \<longrightarrow>
              (\<exists>s''. quiet s s'' \<and> remoteSocket s'' \<noteq> None \<and> s' = pumpRemoteToWebSocket s''))"
proof (cases "(\<exists>e. oc = OpenedRejects e) \<or> remoteSocket s = None \<or> (\<exists>e. oc = GetWriterThrows e)
              \<or> (\<exists>e. oc = GetReaderThrows e)")
  case True
  then show ?thesis using assms
    by (cases oc; cases "remoteSocket s")
       (auto simp add: attemptOpened_def Let_def does_def quiet_def)
next
  case False
  then obtain k where k: "remoteSocket s = Some k" by auto
  let ?s = "does (ReaderAcquired k) ((does (WriterAcquired k) (s\<lparr>remoteWriter := Some k\<rparr>))\<lparr>remoteReader := Some k\<rparr>)"
  have q: "quiet s ?s \<and> remoteSocket ?s = Some k" using k by (simp add: does_def quiet_def)
  have o: "attemptOpened oc f s
           = (if f \<noteq> [] then (Waits AwaitWrite, does (WriterWrote k (encode f)) ?s)
              else attemptConnected oc ?s)"
    using False k by (cases oc) (simp_all add: attemptOpened_def Let_def)
  show ?thesis
  proof (cases "f \<noteq> []")
    case True
    then show ?thesis using assms o q by (auto simp add: does_def quiet_def)
  next
    case f: False
    then have "attemptConnected oc ?s = (pr, s')" using assms o by simp
    from attemptConnected_quiet[OF this] q show ?thesis
      by (metis option.distinct(1) quiet_trans)
  qed
qed

lemma attempts_quiet:
  "(attemptsFrom outcomes original f i attempts s = (pr, s')
    \<longrightarrow> quiet s s' \<and> (\<forall>a. pr = Waits a \<longrightarrow> remoteSocket s' \<noteq> None)
        \<and> (pr = Returns \<longrightarrow> attempts = []))
   \<and> (attemptCatch outcomes original f i attempts e s = (pr, s')
       \<longrightarrow> quiet s s' \<and> (\<forall>a. pr = Waits a \<longrightarrow> remoteSocket s' \<noteq> None) \<and> pr \<noteq> Returns)"
proof (induction attempts arbitrary: i s e pr s')
  case Nil
  show ?case by (auto simp add: Let_def quiet_attemptCleanup)
next
  case (Cons a attempts)
  obtain h p where hp:
    "(case a of None \<Rightarrow> (host original, port original)
      | Some fallback \<Rightarrow> (let parsed = parseAddress fallback in (host parsed, port parsed))) = (h, p)"
    by (metis surj_pair)
  have fr: "quiet s s' \<and> (\<forall>a. pr = Waits a \<longrightarrow> remoteSocket s' \<noteq> None) \<and> pr \<noteq> Returns"
    if af: "attemptsFrom outcomes original f i (a # attempts) s = (pr, s')" for i s pr s'
  proof -
    obtain pr1 s1 where c: "attemptConnect (outcomes i) h p s = (pr1, s1)" by (metis surj_pair)
    note q = attemptConnect_quiet[OF c]
    show ?thesis
    proof (cases pr1)
      case (Waits w)
      then show ?thesis using af c q by (auto simp add: hp simp del: attemptCatch.simps)
    next
      case Returns
      then show ?thesis using q by simp
    next
      case (Throws e1)
      then have "attemptCatch outcomes original f i attempts e1 s1 = (pr, s')"
        using af c by (simp add: hp del: attemptCatch.simps)
      then show ?thesis using Cons.IH[where i = i and s = s1 and e = e1 and pr = pr and s' = s'] q quiet_trans by blast
    qed
  qed
  have catch: "quiet s s' \<and> (\<forall>a. pr = Waits a \<longrightarrow> remoteSocket s' \<noteq> None) \<and> pr \<noteq> Returns"
    if ac: "attemptCatch outcomes original f i (a # attempts) e s = (pr, s')"
  proof (cases "isCFError e")
    case False
    then show ?thesis using ac by (auto simp add: Let_def quiet_attemptCleanup)
  next
    case True
    then have "attemptsFrom outcomes original f (i + 1) (a # attempts) (attemptCleanup s) = (pr, s')"
      using ac by (simp add: Let_def del: attemptsFrom.simps)
    from fr[OF this] show ?thesis using quiet_attemptCleanup quiet_trans by blast
  qed
  show ?case using fr catch by blast
qed

lemma session_inv_pump_inv: "session_inv s \<Longrightarrow> pump_inv s"
  by (auto simp add: session_inv_def pump_inv_def)

lemma pump_inv_cleanup: "pump_inv s \<Longrightarrow> pump_inv (cleanup s)"
  by (cases "isClosed s") (simp_all add: cleanup_closed cleanup_open pump_inv_def)

lemma pump_inv_does: "e \<noteq> PumpRestarted \<Longrightarrow> pump_inv (does e s) = pump_inv s"
  by (simp add: does_def pump_inv_def)

lemma pump_inv_onMessageCatch: "pump_inv s \<Longrightarrow> pump_inv (onMessageCatch message s)"
  by (simp add: onMessageCatch_def pump_inv_cleanup pump_inv_does)

lemma pump_inv_pumpAfter: "pump_inv s \<Longrightarrow> pump_inv (pumpAfter s)"
proof -
  assume i: "pump_inv s"
  then have p: "pump_inv (s\<lparr>pump := NoPump\<rparr>)" by (auto simp add: pump_inv_def)
  show ?thesis
    using p by (simp add: pumpAfter_def Let_def pump_inv_cleanup pump_inv_does)
qed

lemma pump_inv_pumpLoop:
  assumes "pump_inv s" and "\<not> isClosed s \<longrightarrow> remoteSocket s \<noteq> None"
  shows "pump_inv (pumpLoop s)"
proof (cases "\<not> isClosed s \<and> remoteReader s \<noteq> None")
  case True
  then show ?thesis using assms by (auto simp add: pumpLoop_def pump_inv_def)
next
  case False
  then show ?thesis using assms(1) by (auto simp add: pumpLoop_def pump_inv_pumpAfter)
qed

lemma pump_inv_pumpCatch:
  assumes "pump_inv s" and "\<not> isClosed s \<longrightarrow> remoteSocket s \<noteq> None"
  shows "pump_inv (pumpCatch s)"
proof (cases "\<not> isClosed s \<and> connectionAttempts s < 3")
  case True
  then show ?thesis using assms by (auto simp add: pumpCatch_def Let_def does_def pump_inv_def)
next
  case False
  then show ?thesis using assms(1) by (auto simp add: pumpCatch_def pump_inv_pumpAfter)
qed

lemma pump_inv_open_socket:
  "pump_inv s \<Longrightarrow> pump s \<noteq> NoPump \<Longrightarrow> \<not> isClosed s \<longrightarrow> remoteSocket s \<noteq> None"
  by (auto simp add: pump_inv_def)

lemma pump_inv_pumpOnRead:
  assumes "pump_inv s" and "pump s = AwaitRead"
  shows "pump_inv (pumpOnRead r sendThrows s)"
proof -
  have o: "\<not> isClosed s \<longrightarrow> remoteSocket s \<noteq> None"
    using pump_inv_open_socket[OF assms(1)] assms(2) by simp
  have d: "pump_inv (does (WsSent (Binary bytes)) s)" for bytes
    using assms(1) by (simp add: pump_inv_does)
  have od: "\<not> isClosed (does (WsSent (Binary bytes)) s) \<longrightarrow> remoteSocket (does (WsSent (Binary bytes)) s) \<noteq> None"
    for bytes
    using o by (simp add: does_def)
  show ?thesis
    using assms(1) o d od
    by (auto simp add: pumpOnRead_def Let_def pump_inv_pumpCatch pump_inv_pumpLoop
        pump_inv_pumpAfter split: read_result.splits option.splits)
qed

lemma pump_inv_pumpOnDelay:
  assumes "pump_inv s" and "pump s = AwaitDelay"
  shows "pump_inv (pumpOnDelay readable getReaderThrows s)"
proof (cases "remoteSocket s")
  case None
  then show ?thesis using assms(1) by (simp add: pumpOnDelay_def pump_inv_pumpAfter)
next
  case (Some k)
  show ?thesis
  proof (cases "readable \<and> \<not> getReaderThrows")
    case False
    then show ?thesis using assms(1) Some by (auto simp add: pumpOnDelay_def pump_inv_pumpAfter)
  next
    case True
    have nc: "\<not> isClosed s" using assms Some by (auto simp add: pump_inv_def)
    have "pumpOnDelay readable getReaderThrows s
          = s\<lparr>remoteReader := Some k, pump := AwaitRead,
               effects := effects s @ [ReaderAcquired k, PumpRestarted]\<rparr>"
      using True Some nc
      by (simp add: pumpOnDelay_def pumpRemoteToWebSocket_def pumpLoop_def does_def)
    then show ?thesis using assms Some nc by (auto simp add: pump_inv_def)
  qed
qed

lemma relay_inv_vars:
  assumes "relay_inv r" and "pump_inv s'"
    and "\<not> isClosed s' \<and> waiting r \<noteq> [] \<longrightarrow> \<not> isClosed (vars r) \<and> remoteSocket s' \<noteq> None"
    and "waiting r \<noteq> [] \<longrightarrow> pump s' = NoPump"
  shows "relay_inv (r\<lparr>vars := s'\<rparr>)"
  using assms by (auto simp add: relay_inv_def)

lemma cleanup_fields:
  "isClosed (cleanup s) \<and> remoteSocket (cleanup s) = remoteSocket (if isClosed s then s else s\<lparr>remoteSocket := None\<rparr>)
   \<and> pump (cleanup s) = pump s \<and> restarts (effects (cleanup s)) = restarts (effects s)
   \<and> connectionAttempts (cleanup s) = connectionAttempts s"
  by (cases "isClosed s") (simp_all add: cleanup_closed cleanup_open)

lemma relay_inv_cleanup: "relay_inv r \<Longrightarrow> relay_inv (r\<lparr>vars := cleanup (vars r)\<rparr>)"
  by (rule relay_inv_vars) (auto simp add: relay_inv_def pump_inv_cleanup cleanup_fields)

lemma onMessageCatch_fields:
  "isClosed (onMessageCatch e s) \<and> pump (onMessageCatch e s) = pump s
   \<and> restarts (effects (onMessageCatch e s)) = restarts (effects s)
   \<and> connectionAttempts (onMessageCatch e s) = connectionAttempts s
   \<and> (\<not> isClosed s \<longrightarrow> remoteSocket (onMessageCatch e s) = None)
   \<and> (isClosed s \<longrightarrow> remoteSocket (onMessageCatch e s) = remoteSocket s)"
  using cleanup_fields[of "does (WsSent (Text (''ERROR:'' @ e))) s"]
  by (simp add: onMessageCatch_def does_def)

lemma relay_inv_onMessageCatch:
  "relay_inv r \<Longrightarrow> relay_inv (r\<lparr>vars := onMessageCatch e (vars r)\<rparr>)"
  by (rule relay_inv_vars) (auto simp add: relay_inv_def pump_inv_onMessageCatch onMessageCatch_fields)

lemma relay_inv_writes: "relay_inv (r\<lparr>writes := n\<rparr>) = relay_inv r"
  by (simp add: relay_inv_def)

lemma does_fields:
  "isClosed (does e s) = isClosed s" "remoteSocket (does e s) = remoteSocket s"
  "pump (does e s) = pump s" "connectionAttempts (does e s) = connectionAttempts s"
  "remoteWriter (does e s) = remoteWriter s" "remoteReader (does e s) = remoteReader s"
  "isConnecting (does e s) = isConnecting s" "readyState (does e s) = readyState s"
  "sockets (does e s) = sockets s" "effects (does e s) = effects s @ [e]"
  by (simp_all add: does_def)

lemma relay_inv_dataWrite:
  assumes "relay_inv r"
  shows "relay_inv (dataWrite bytes r)"
proof (cases "remoteWriter (vars r)")
  case None
  then show ?thesis using assms by (simp add: dataWrite_def)
next
  case (Some w)
  have "relay_inv (r\<lparr>vars := does (WriterWrote w bytes) (vars r)\<rparr>)"
    by (rule relay_inv_vars[OF assms]) (use assms in \<open>auto simp add: relay_inv_def pump_inv_does does_fields\<close>)
  then show ?thesis using Some by (simp add: dataWrite_def relay_inv_def)
qed

lemma connectCatch_cases:
  "connectCatch (pr, s) = (pr, if (\<exists>e. pr = Throws e) then s\<lparr>isConnecting := False\<rparr> else s)"
  by (cases pr) (simp_all add: connectCatch_def)

lemma quiet_isConnecting: "quiet s (s\<lparr>isConnecting := b\<rparr>)"
  by (simp add: quiet_def)

lemma connectResume_quiet:
  assumes "connectResume outcomes a s = (pr, s')"
  shows "(\<forall>a'. pr = Waits a' \<longrightarrow> quiet s s' \<and> remoteSocket s' \<noteq> None)
         \<and> (\<forall>e. pr = Throws e \<longrightarrow> quiet s s')
         \<and> (pr = Returns \<longrightarrow>
              (\<exists>s''. quiet s s'' \<and> (remoteSocket s \<noteq> None \<longrightarrow> remoteSocket s'' \<noteq> None)
                     \<and> s' = pumpRemoteToWebSocket s''))"
proof -
  obtain pr1 s1 where p: "(case waitsAt a of
                AwaitOpened \<Rightarrow> attemptOpened (outcomes (attemptNo a)) (firstFrame a) s
              | AwaitWrite \<Rightarrow> attemptWritten (outcomes (attemptNo a)) s) = (pr1, s1)"
    by (metis surj_pair)
  have q1: "(\<forall>w. pr1 = Waits w \<longrightarrow> quiet s s1 \<and> remoteSocket s1 \<noteq> None)
         \<and> (\<forall>e. pr1 = Throws e \<longrightarrow> quiet s s1)
         \<and> (pr1 = Returns \<longrightarrow>
              (\<exists>s''. quiet s s'' \<and> (remoteSocket s \<noteq> None \<longrightarrow> remoteSocket s'' \<noteq> None)
                     \<and> s1 = pumpRemoteToWebSocket s''))"
  proof (cases "waitsAt a")
    case AwaitOpened
    then have "attemptOpened (outcomes (attemptNo a)) (firstFrame a) s = (pr1, s1)" using p by simp
    from attemptOpened_quiet[OF this] show ?thesis by blast
  next
    case AwaitWrite
    then have "attemptWritten (outcomes (attemptNo a)) s = (pr1, s1)" using p by simp
    from attemptWritten_quiet[OF this] show ?thesis by metis
  qed
  show ?thesis
  proof (cases pr1)
    case (Waits w)
    then have "pr = Waits (a\<lparr>waitsAt := w\<rparr>)" "s' = s1"
      using assms p by (simp_all add: connectResume_def connectCatch_def del: attemptCatch.simps)
    then show ?thesis using q1 Waits by simp
  next
    case Returns
    then have "pr = Returns" "s' = s1"
      using assms p by (simp_all add: connectResume_def connectCatch_def del: attemptCatch.simps)
    then show ?thesis using q1 Returns by simp
  next
    case (Throws e)
    obtain pr2 s2 where c: "attemptCatch outcomes (originalAddr a) (firstFrame a) (attemptNo a) (fallbacks a) e s1 = (pr2, s2)"
      by (metis surj_pair)
    have q2: "quiet s1 s2 \<and> (\<forall>a. pr2 = Waits a \<longrightarrow> remoteSocket s2 \<noteq> None) \<and> pr2 \<noteq> Returns"
      using attempts_quiet[of outcomes "originalAddr a" "firstFrame a" "attemptNo a" "fallbacks a" s1 pr2 s2 e] c
      by blast
    have r: "(pr, s') = (pr2, if (\<exists>e. pr2 = Throws e) then s2\<lparr>isConnecting := False\<rparr> else s2)"
      using assms p Throws c
      by (auto simp add: connectResume_def connectCatch_cases simp del: attemptCatch.simps)
    have qs: "quiet s s2" using q1 Throws q2 quiet_trans by blast
    show ?thesis
    proof (cases "\<exists>e. pr2 = Throws e")
      case True
      then have "s' = s2\<lparr>isConnecting := False\<rparr>" "pr = pr2" using r by simp_all
      then show ?thesis using True qs quiet_trans[OF qs quiet_isConnecting] by auto
    next
      case False
      then have "s' = s2" "pr = pr2" using r by simp_all
      then show ?thesis using False qs q2 by auto
    qed
  qed
qed

lemma connectBegin_idle:
  assumes "connectBegin outcomes targetAddr f proxyIP s = (pr, s')"
    and "\<not> isConnecting s" and "remoteSocket s = None"
  shows "isClosed s' = isClosed s \<and> pump s' = pump s
         \<and> restarts (effects s') = restarts (effects s) \<and> connectionAttempts s' = 0
         \<and> pr \<noteq> Returns \<and> (\<forall>a. pr = Waits a \<longrightarrow> remoteSocket s' \<noteq> None)"
proof -
  let ?s1 = "s\<lparr>isConnecting := True, connectionAttempts := 0\<rparr>"
  let ?attempts = "None # map Some (if proxyIP \<noteq> [] then [proxyIP] else [])"
  obtain pr2 s2 where c: "attemptsFrom outcomes (parseAddress targetAddr) f 0 ?attempts ?s1 = (pr2, s2)"
    by (metis surj_pair)
  have q2: "quiet ?s1 s2 \<and> (\<forall>a. pr2 = Waits a \<longrightarrow> remoteSocket s2 \<noteq> None) \<and> (pr2 = Returns \<longrightarrow> ?attempts = [])"
    using attempts_quiet[of outcomes "parseAddress targetAddr" f 0 ?attempts ?s1 pr2 s2] c by blast
  have r: "(pr, s') = (pr2, if (\<exists>e. pr2 = Throws e) then s2\<lparr>isConnecting := False\<rparr> else s2)"
    using assms c
    by (auto simp add: connectBegin_def Let_def connectCatch_cases
        simp del: attemptsFrom.simps attemptCatch.simps)
  show ?thesis
  proof (cases "\<exists>e. pr2 = Throws e")
    case True
    then have "s' = s2\<lparr>isConnecting := False\<rparr>" "pr = pr2" using r by simp_all
    then show ?thesis using True q2 by (auto simp add: quiet_def)
  next
    case False
    then have "s' = s2" "pr = pr2" using r by simp_all
    then show ?thesis using False q2 by (auto simp add: quiet_def)
  qed
qed

lemma relay_inv_started:
  assumes "relay_inv r" and "\<not> isClosed (vars r)"
  shows "relay_inv (started r (connectBegin outcomes targetAddr f proxyIP (vars r)))"
proof (cases "isConnecting (vars r) \<or> remoteSocket (vars r) \<noteq> None")
  case True
  then show ?thesis
    using relay_inv_onMessageCatch[OF assms(1)] by (simp add: connectBegin_busy started_def)
next
  case False
  obtain pr s' where c: "connectBegin outcomes targetAddr f proxyIP (vars r) = (pr, s')"
    by (metis surj_pair)
  from False have nb: "\<not> isConnecting (vars r)" "remoteSocket (vars r) = None" by simp_all
  note b = connectBegin_idle[OF c nb]
  have w: "waiting r = []" using assms False by (auto simp add: relay_inv_def)
  have i0: "pump (vars r) = NoPump \<and> restarts (effects (vars r)) = 0"
    using assms nb by (auto simp add: relay_inv_def pump_inv_def)
  have os: "\<not> isClosed s'" "pump s' = NoPump" "restarts (effects s') = 0" "connectionAttempts s' = 0"
    using b i0 assms(2) by simp_all
  show ?thesis
  proof (cases pr)
    case (Waits a)
    then have "remoteSocket s' \<noteq> None" using b by simp
    then show ?thesis using os Waits w
      by (auto simp add: c started_def relay_inv_def pump_inv_def)
  next
    case Returns
    then show ?thesis using b by simp
  next
    case (Throws e)
    have "pump_inv s'" using os by (auto simp add: pump_inv_def)
    then have "pump_inv (onMessageCatch e s')" by (rule pump_inv_onMessageCatch)
    then show ?thesis using Throws w
      by (auto simp add: c started_def relay_inv_def onMessageCatch_fields)
  qed
qed

lemma relay_inv_resumed:
  assumes "relay_inv r" and "j < length (waiting r)"
  shows "relay_inv (resumed r j (connectResume outcomes (waiting r ! j) (vars r)))"
proof -
  let ?s = "vars r"
  obtain pr s' where c: "connectResume outcomes (waiting r ! j) ?s = (pr, s')"
    by (metis surj_pair)
  note q = connectResume_quiet[OF c]
  have wn: "waiting r \<noteq> []" using assms(2) by auto
  have p0: "pump ?s = NoPump" using assms(1) wn by (simp add: relay_inv_def)
  have pi: "pump_inv ?s" using assms(1) by (simp add: relay_inv_def)
  have op: "\<not> isClosed ?s \<longrightarrow> length (waiting r) = 1 \<and> remoteSocket ?s \<noteq> None"
    using assms(1) wn by (simp add: relay_inv_def)
  have rest: "\<not> isClosed ?s \<longrightarrow> take j (waiting r) @ drop (Suc j) (waiting r) = []"
    using op assms(2) by auto
  show ?thesis
  proof (cases pr)
    case (Waits a')
    then have qs: "quiet ?s s'" "remoteSocket s' \<noteq> None" using q by simp_all
    have "pump_inv s'" using pi qs p0 by (auto simp add: pump_inv_def quiet_def)
    then show ?thesis using Waits qs p0 op assms(2)
      by (auto simp add: c resumed_def relay_inv_def quiet_def)
  next
    case (Throws e)
    then have qs: "quiet ?s s'" using q by simp
    have "pump_inv (onMessageCatch e s')"
      using pi qs p0 onMessageCatch_fields[of e s'] by (auto simp add: pump_inv_def quiet_def)
    then show ?thesis using Throws qs p0
      by (auto simp add: c resumed_def relay_inv_def onMessageCatch_fields quiet_def)
  next
    case Returns
    then obtain s'' where s'': "quiet ?s s''" "remoteSocket ?s \<noteq> None \<longrightarrow> remoteSocket s'' \<noteq> None"
      "s' = pumpRemoteToWebSocket s''" using q by auto
    show ?thesis
    proof (cases "isClosed ?s")
      case True
      then have cl: "isClosed s''" using s''(1) by (simp add: quiet_def)
      have s': "s' = s''\<lparr>pump := NoPump\<rparr>" using s''(3) cl by (simp add: pumpRemoteToWebSocket_closed)
      have "pump_inv s'" unfolding s' using pi s''(1) p0 cl by (auto simp add: pump_inv_def quiet_def)
      then show ?thesis using Returns cl
        by (auto simp add: c resumed_def relay_inv_def s')
    next
      case False
      then have o: "\<not> isClosed s''" "remoteSocket s'' \<noteq> None" using s'' op by (simp_all add: quiet_def)
      have "pump_inv s''" using pi s''(1) p0 o by (auto simp add: pump_inv_def quiet_def)
      then have "pump_inv s'" unfolding s''(3) pumpRemoteToWebSocket_def
        using o by (intro pump_inv_pumpLoop) simp_all
      then show ?thesis using Returns rest False
        by (auto simp add: c resumed_def relay_inv_def)
    qed
  qed
qed

lemma relay_inv_listener:
  assumes "relay_inv r"
  shows "relay_inv (listener data outcomes r)"
proof (cases "isClosed (vars r)")
  case True
  then show ?thesis using assms by (simp add: listener_def)
next
  case False
  have t: "relay_inv (started r (Throws msgInvalidTarget, vars r))"
    using relay_inv_onMessageCatch[OF assms] by (simp add: started_def)
  show ?thesis
    using assms False t
    by (cases data)
       (simp_all add: listener_def Let_def relay_inv_started relay_inv_dataWrite relay_inv_cleanup)
qed

lemma relay_inv_deliver:
  assumes "relay_inv r"
  shows "relay_inv (deliver r e)"
proof (cases e)
  case (OnMessage data outcomes)
  then show ?thesis using assms by (simp add: relay_inv_listener)
next
  case OnClose
  then show ?thesis using assms by (simp add: relay_inv_cleanup)
next
  case OnError
  then show ?thesis using assms by (simp add: relay_inv_cleanup)
next
  case (Settled j outcomes)
  then show ?thesis using assms by (simp add: relay_inv_resumed)
next
  case (DataWritten rejects)
  have "relay_inv (r\<lparr>writes := writes r - 1\<rparr>)" using assms by (simp add: relay_inv_writes)
  from this relay_inv_onMessageCatch[OF this] show ?thesis
    using assms DataWritten by (cases rejects) (simp_all add: Let_def)
next
  case (OnRead res sendThrows)
  show ?thesis
  proof (cases "pump (vars r) = AwaitRead")
    case True
    have w: "waiting r = []" using assms True by (auto simp add: relay_inv_def)
    have "pump_inv (pumpOnRead res sendThrows (vars r))"
      using assms True by (intro pump_inv_pumpOnRead) (simp_all add: relay_inv_def)
    then show ?thesis using OnRead True w by (simp add: relay_inv_def)
  next
    case False
    then show ?thesis using assms OnRead by simp
  qed
next
  case (OnDelay readable getReaderThrows)
  show ?thesis
  proof (cases "pump (vars r) = AwaitDelay")
    case True
    have w: "waiting r = []" using assms True by (auto simp add: relay_inv_def)
    have "pump_inv (pumpOnDelay readable getReaderThrows (vars r))"
      using assms True by (intro pump_inv_pumpOnDelay) (simp_all add: relay_inv_def)
    then show ?thesis using OnDelay True w by (simp add: relay_inv_def)
  next
    case False
    then show ?thesis using assms OnDelay by simp
  qed
next
  case (OnReadyState n)
  then show ?thesis using assms by (simp add: relay_inv_def pump_inv_def)
qed

lemma relay_inv_play: "relay_inv r \<Longrightarrow> relay_inv (play r evs)"
  unfolding play_def by (induction evs arbitrary: r) (simp_all add: relay_inv_deliver)

lemma relay_inv_idle: "relay_inv (idle (handleSession n))"
  by (simp add: idle_def handleSession_def relay_inv_def pump_inv_def)

lemma relay_restarts_bounded: "restarts (effects (vars (play (idle (handleSession n)) evs))) \<le> 3"
proof -
  have "relay_inv (play (idle (handleSession n)) evs)"
    by (rule relay_inv_play[OF relay_inv_idle])
  then show ?thesis by (simp add: relay_inv_def pump_inv_def)
qed

lemma pumpOnRead_closed:
  assumes "isClosed s"
  shows "isClosed (pumpOnRead res b s) \<and> restarts (effects (pumpOnRead res b s)) = restarts (effects s)"
  using assms
  by (auto simp add: pumpOnRead_def pumpCatch_def pumpLoop_def pumpAfter_closed does_def Let_def
      split: read_result.splits option.splits)

lemma relay_closed_deliver:
  assumes "relay_inv r" and "isClosed (vars r)"
  shows "isClosed (vars (deliver r e))
         \<and> restarts (effects (vars (deliver r e))) = restarts (effects (vars r))"
proof (cases e)
  case (OnMessage data outcomes)
  then show ?thesis using assms(2) by (simp add: listener_def)
next
  case OnClose
  then show ?thesis using assms(2) by (simp add: cleanup_closed)
next
  case OnError
  then show ?thesis using assms(2) by (simp add: cleanup_closed)
next
  case (Settled j outcomes)
  show ?thesis
  proof (cases "j < length (waiting r)")
    case False
    then show ?thesis using Settled assms(2) by simp
  next
    case True
    obtain pr s' where c: "connectResume outcomes (waiting r ! j) (vars r) = (pr, s')"
      by (metis surj_pair)
    note q = connectResume_quiet[OF c]
    have "isClosed s' \<and> restarts (effects s') = restarts (effects (vars r))"
    proof (cases pr)
      case (Waits a')
      then show ?thesis using q assms(2) by (simp add: quiet_def)
    next
      case (Throws e)
      then show ?thesis using q assms(2) by (simp add: quiet_def)
    next
      case Returns
      then obtain s'' where s'': "quiet (vars r) s''" "s' = pumpRemoteToWebSocket s''" using q by auto
      then have "isClosed s''" using assms(2) by (simp add: quiet_def)
      then show ?thesis using s'' by (simp add: pumpRemoteToWebSocket_closed quiet_def)
    qed
    then show ?thesis using Settled True c
      by (cases pr) (simp_all add: resumed_def onMessageCatch_fields)
  qed
next
  case (DataWritten rejects)
  then show ?thesis using assms(2)
    by (cases rejects) (simp_all add: Let_def onMessageCatch_fields)
next
  case (OnRead res sendThrows)
  then show ?thesis using assms(2) pumpOnRead_closed[OF assms(2)] by simp
next
  case (OnDelay readable getReaderThrows)
  show ?thesis
  proof (cases "pump (vars r) = AwaitDelay")
    case True
    then have "remoteSocket (vars r) = None"
      using assms by (auto simp add: relay_inv_def pump_inv_def)
    then show ?thesis using OnDelay assms(2) by (simp add: pumpOnDelay_def pumpAfter_closed)
  next
    case False
    then show ?thesis using OnDelay assms(2) by simp
  qed
next
  case (OnReadyState n)
  then show ?thesis using assms(2) by simp
qed

lemma relay_closed_play:
  assumes "relay_inv r" and "isClosed (vars r)"
  shows "isClosed (vars (play r evs))
         \<and> restarts (effects (vars (play r evs))) = restarts (effects (vars r))"
  using assms unfolding play_def
proof (induction evs arbitrary: r)
  case Nil
  then show ?case by simp
next
  case (Cons e evs)
  note c = relay_closed_deliver[OF Cons.prems, of e]
  have i: "relay_inv (deliver r e)" by (rule relay_inv_deliver[OF Cons.prems(1)])
  from c have cl: "isClosed (vars (deliver r e))" by simp
  show ?case using Cons.IH[OF i cl] c by simp
qed

lemma relay_closed_idle_deliver:
  assumes "isClosed (vars r)" and "waiting r = []"
  shows "isClosed (vars (deliver r e)) \<and> waiting (deliver r e) = []
         \<and> filter closing (effects (vars (deliver r e))) = filter closing (effects (vars r))"
proof (cases e)
  case (OnMessage data outcomes)
  then show ?thesis using assms by (simp add: listener_def)
next
  case (DataWritten rejects)
  then show ?thesis using assms
    by (cases rejects) (simp_all add: Let_def onMessageCatch_def cleanup_closed does_def)
next
  case (OnRead res sendThrows)
  then show ?thesis using assms closed_step_closing[OF assms(1), of "ReadSettled res sendThrows"]
    by (cases "pump (vars r) = AwaitRead") simp_all
next
  case (OnDelay readable getReaderThrows)
  then show ?thesis using assms closed_step_closing[OF assms(1), of "DelayElapsed readable getReaderThrows"]
    by (cases "pump (vars r) = AwaitDelay") simp_all
qed (use assms in \<open>simp_all add: cleanup_closed\<close>)

lemma relay_closed_idle_play:
  assumes "isClosed (vars r)" and "waiting r = []"
  shows "filter closing (effects (vars (play r evs))) = filter closing (effects (vars r))"
  using assms unfolding play_def
proof (induction evs arbitrary: r)
  case Nil
  then show ?case by simp
next
  case (Cons e evs)
  note c = relay_closed_idle_deliver[OF Cons.prems, of e]
  from c have "isClosed (vars (deliver r e))" "waiting (deliver r e) = []" by simp_all
  from Cons.IH[OF this] c show ?case by simp
qed


section \<open>Claims about the DNS parser\<close>

text \<open>
  C2: for every input byte slice, also every truncated prefix of a message,
  \<open>parseDNSResponse\<close> and \<open>parseHTTPSRecord\<close> return: no read of theirs is out of
  range (no panic), and their loops end.
\<close>

theorem parser_never_panics:
  "(\<exists>r. parseDNSResponse response = Some r)
   \<and> (\<exists>r. parseDNSResponse (take n response) = Some r)
   \<and> (\<exists>ech. parseHTTPSRecord data = Some ech)"
  using parseDNSResponse_total parseHTTPSRecord_total by blast

text \<open>
  C1, as stated, fails: in a well-formed response whose only answer is an HTTPS record
  with the SvcParams no-default-alpn (key 2, empty value) and ech (key 5, value 01 02 03),
  the parser stops at the empty value and returns the empty string instead of the encoding
  \<open>AQID\<close> of the ECH value.
\<close>

theorem parse_misses_ech_after_empty_param:
  "wf_response response_with_empty_param
   \<and> msg_answers response_with_empty_param =
       [\<lparr>rr_name = PointerForm 12, rr_class = 1, rr_ttl = 60,
         rr_data = HTTPSData 1 []
           [\<lparr>sp_key = 2, sp_value = []\<rparr>, \<lparr>sp_key = 5, sp_value = [1, 2, 3]\<rparr>]\<rparr>]
   \<and> parseDNSResponse (wire_response response_with_empty_param) = Some ([], None)
   \<and> EncodeToString [1, 2, 3] = ''AQID''"
proof -
  have a: "wf_response response_with_empty_param"
    by (simp add: response_with_empty_param_def wf_response_def wf_rr_def wf_labels_def
        wire_params_def wire_param_def be16_def)
  have b: "msg_answers response_with_empty_param =
       [\<lparr>rr_name = PointerForm 12, rr_class = 1, rr_ttl = 60,
         rr_data = HTTPSData 1 []
           [\<lparr>sp_key = 2, sp_value = []\<rparr>, \<lparr>sp_key = 5, sp_value = [1, 2, 3]\<rparr>]\<rparr>]"
    by (simp add: response_with_empty_param_def)
  have c: "parseDNSResponse (wire_response response_with_empty_param) = Some ([], None)"
    by code_simp
  have d: "EncodeToString [1, 2, 3] = ''AQID''"
    by (simp add: enc_def encodeStd_def)
  show ?thesis using a b c d by blast
qed

text \<open>
  C1, amended: for a well-formed response, let \<open>r\<close> be the first answer that is an HTTPS
  record with a SvcParam of key 5. If the value \<open>v\<close> of the first such SvcParam of \<open>r\<close> is
  not empty and every SvcParam before it in \<open>r\<close> has a value that is not empty, then
  \<open>parseDNSResponse\<close> returns the standard base64 encoding of \<open>v\<close> and no error, whatever
  the form (a label sequence or a two-byte pointer) of the names of \<open>r\<close> and of the answers
  before it.
\<close>

theorem parse_returns_first_ech:
  assumes "wf_response m"
    and "msg_answers m = before @ r # after"
    and "\<not> list_ex carries_ech before"
    and "rr_data r = HTTPSData priority target (ps @ \<lparr>sp_key = 5, sp_value = v\<rparr> # qs)"
    and "list_all (\<lambda>p. sp_key p \<noteq> 5 \<and> sp_value p \<noteq> []) ps"
    and "v \<noteq> []"
  shows "parseDNSResponse (wire_response m) = Some (EncodeToString v, None)"
  by (rule parseDNSResponse_first_ech[OF assms])

text \<open>The amended C1 at a response with two answers, both with compressed names.\<close>

theorem parse_returns_first_ech_witness:
  "wf_response response_with_ech
   \<and> msg_answers response_with_ech =
       [\<lparr>rr_name = PointerForm 12, rr_class = 1, rr_ttl = 60, rr_data = OpaqueData 5 [1, 0x62, 0]\<rparr>]
       @ \<lparr>rr_name = PointerForm 12, rr_class = 1, rr_ttl = 60,
          rr_data = HTTPSData 1 []
            ([\<lparr>sp_key = 1, sp_value = [2, 0x68, 0x32]\<rparr>] @ \<lparr>sp_key = 5, sp_value = [1, 2, 3]\<rparr> # [])\<rparr> # []
   \<and> parseDNSResponse (wire_response response_with_ech) = Some (''AQID'', None)"
proof -
  let ?r = "\<lparr>rr_name = PointerForm 12, rr_class = 1, rr_ttl = 60,
          rr_data = HTTPSData 1 []
            ([\<lparr>sp_key = 1, sp_value = [2, 0x68, 0x32]\<rparr>] @ \<lparr>sp_key = 5, sp_value = [1, 2, 3]\<rparr> # [])\<rparr>"
  let ?b = "[\<lparr>rr_name = PointerForm 12, rr_class = 1, rr_ttl = 60, rr_data = OpaqueData 5 [1, 0x62, 0]\<rparr>]"
  have h1: "wf_response response_with_ech"
    by (simp add: response_with_ech_def wf_response_def wf_rr_def wf_labels_def
        wire_params_def wire_param_def be16_def)
  have h2: "msg_answers response_with_ech = ?b @ ?r # []"
    by (simp add: response_with_ech_def)
  have h3: "\<not> list_ex carries_ech ?b" by simp
  have h4: "rr_data ?r = HTTPSData 1 []
            ([\<lparr>sp_key = 1, sp_value = [2, 0x68, 0x32]\<rparr>] @ \<lparr>sp_key = 5, sp_value = [1, 2, 3]\<rparr> # [])"
    by simp
  have h5: "list_all (\<lambda>p. sp_key p \<noteq> 5 \<and> sp_value p \<noteq> []) [\<lparr>sp_key = 1, sp_value = [2, 0x68, 0x32]\<rparr>]"
    by simp
  have h6: "[1, 2, 3 :: byte] \<noteq> []" by simp
  have e: "EncodeToString [1, 2, 3] = ''AQID''" by (simp add: enc_def encodeStd_def)
  have c: "parseDNSResponse (wire_response response_with_ech) = Some (''AQID'', None)"
    using parse_returns_first_ech[OF h1 h2 h3 h4 h5 h6] unfolding e .
  show ?thesis using h1 h2 c by blast
qed

text \<open>
  The names of the amended C1 are label sequences or pointers. A name that is a label
  followed by a pointer, which DNS compression also allows, is walked as if the pointer were
  a label of 192 bytes, and the ECH value of the record is not found.
\<close>

lemma parse_misses_ech_after_partly_compressed_name:
  "parseDNSResponse response_partly_compressed = Some ([], None)"
  by code_simp

text \<open>
  C3, as stated, fails for ANCOUNT = 0: the parser returns the error "no answer records"
  with the empty string, and \<open>Prepare\<close> reports it as a failed DNS query, not as a missing
  ECH parameter.
\<close>

theorem no_answers_is_an_error:
  "wf_response response_without_answers
   \<and> parseDNSResponse (wire_response response_without_answers) = Some ([], Some ErrNoAnswerRecords)
   \<and> Prepare rejecting (answering (wire_response response_without_answers)) (NewECHManager ''a'' ''dns.example'')
       = Some (Some (ErrDNSQueryFailed ErrNoAnswerRecords), NewECHManager ''a'' ''dns.example'')"
proof -
  have a: "wf_response response_without_answers"
    by (simp add: response_without_answers_def wf_response_def wf_labels_def)
  have p: "parseDNSResponse (wire_response response_without_answers) = Some ([], Some ErrNoAnswerRecords)"
    by code_simp
  have q: "Prepare rejecting (answering (wire_response response_without_answers)) (NewECHManager ''a'' ''dns.example'')
       = Some (Some (ErrDNSQueryFailed ErrNoAnswerRecords), NewECHManager ''a'' ''dns.example'')"
    by (simp add: Prepare_def queryHTTPSRecord_def queryDoH_def answering_def p)
  show ?thesis using a p q by blast
qed

text \<open>
  C3, amended: for a well-formed response (the name of each answer a label sequence or a
  two-byte pointer) none of whose answers is an HTTPS record with a SvcParam of key 5, the
  parser does not panic; when there is an answer it returns the
  empty string and no error, which \<open>Prepare\<close> reports as "ECH parameter not found"; when
  ANCOUNT is 0 it returns the empty string and the error "no answer records", which
  \<open>Prepare\<close> reports as a failed DNS query. \<open>Prepare\<close> leaves the store as it was.
\<close>

theorem parse_without_ech:
  assumes "wf_response m" and "\<not> list_ex carries_ech (msg_answers m)"
  shows "parseDNSResponse (wire_response m)
           = Some ([], if msg_answers m = [] then Some ErrNoAnswerRecords else None)
         \<and> Prepare decode (answering (wire_response m)) mgr
           = Some (Some (if msg_answers m = [] then ErrDNSQueryFailed ErrNoAnswerRecords
                         else ErrECHParamNotFound), mgr)"
proof -
  let ?n = "length (msg_answers m)"
  have wfs: "list_all wf_rr (msg_answers m)" using assms(1) by (simp add: wf_response_def)
  have resp: "wire_response m = wire_prelude m @ wire_answers (msg_answers m) @ msg_rest m"
    by (rule wire_response_prelude)
  have "answerLoop (wire_response m) ?n 0 (length (wire_prelude m))
        = answerLoop (wire_response m) ?n (0 + ?n)
            (length (wire_prelude m) + length (wire_answers (msg_answers m)))"
    unfolding resp by (rule answerLoop_skip[OF wfs assms(2)]) simp
  then have "answerLoop (wire_response m) ?n 0 (length (wire_prelude m)) = Some ([], None)"
    by (simp add: answerLoop_done)
  then have p: "parseDNSResponse (wire_response m)
           = Some ([], if msg_answers m = [] then Some ErrNoAnswerRecords else None)"
    using parseDNSResponse_wire[OF assms(1)] by simp
  show ?thesis
    by (simp add: p Prepare_def queryHTTPSRecord_def queryDoH_def answering_def)
qed

text \<open>The amended C3 at a response whose only answer is an A record.\<close>

theorem parse_without_ech_witness:
  "wf_response response_with_address_only
   \<and> \<not> list_ex carries_ech (msg_answers response_with_address_only)
   \<and> parseDNSResponse (wire_response response_with_address_only) = Some ([], None)
   \<and> Prepare rejecting (answering (wire_response response_with_address_only)) (NewECHManager ''a'' ''dns.example'')
       = Some (Some ErrECHParamNotFound, NewECHManager ''a'' ''dns.example'')"
proof -
  have h1: "wf_response response_with_address_only"
    by (simp add: response_with_address_only_def wf_response_def wf_rr_def wf_labels_def)
  have h2: "\<not> list_ex carries_ech (msg_answers response_with_address_only)"
    by (simp add: response_with_address_only_def)
  have ne: "msg_answers response_with_address_only \<noteq> []"
    by (simp add: response_with_address_only_def)
  have c: "parseDNSResponse (wire_response response_with_address_only) = Some ([], None)
   \<and> Prepare rejecting (answering (wire_response response_with_address_only)) (NewECHManager ''a'' ''dns.example'')
       = Some (Some ErrECHParamNotFound, NewECHManager ''a'' ''dns.example'')"
    using parse_without_ech[OF h1 h2, of rejecting "NewECHManager ''a'' ''dns.example''"]
    by (simp only: ne if_False)
  show ?thesis using h1 h2 c by blast
qed

section \<open>Claims about the relay's address parsing\<close>

lemma splitAt_no_sep: "list_all (\<lambda>c. \<not> sep c) h \<Longrightarrow> splitAt sep h = [h]"
  by (induction h) simp_all

lemma splitAt_first:
  "list_all (\<lambda>c. \<not> sep c) h \<Longrightarrow> sep c \<Longrightarrow> splitAt sep (h @ c # p) = h # splitAt sep p"
  by (induction h) simp_all

lemma parseInt_443: "parseInt (JSNumber 443) = Some 443"
  by code_simp

lemma not_bracket_append:
  "\<not> prefix ''['' h \<Longrightarrow> isSeparator c \<Longrightarrow> \<not> prefix ''['' (h @ c # p)"
  by (cases h) (auto simp: isSeparator_def)

lemma parseAddress_bare:
  assumes "\<not> prefix ''['' h" "list_all (\<lambda>c. \<not> isSeparator c) h"
  shows "parseAddress h = \<lparr>host = h, port = 443\<rparr>"
  using assms by (simp add: parseAddress_def splitAt_no_sep parseInt_443)

lemma parseAddress_separated:
  assumes "\<not> prefix ''['' h" "list_all (\<lambda>c. \<not> isSeparator c) h" "isSeparator c"
    "list_all (\<lambda>c. \<not> isSeparator c) p"
  shows "parseAddress (h @ c # p)
         = \<lparr>host = h, port = (case parseInt (JSString p) of None \<Rightarrow> 443 | Some n \<Rightarrow> n)\<rparr>"
proof -
  have s: "splitAt isSeparator (h @ c # p) = [h, p]"
    using assms by (simp add: splitAt_first splitAt_no_sep)
  have nb: "\<not> prefix ''['' (h @ c # p)" by (rule not_bracket_append[OF assms(1,3)])
  show ?thesis using nb by (simp add: parseAddress_def s)
qed

lemma indexOf_bracket:
  "CHR '']'' \<notin> set a \<Longrightarrow> indexOf (CHR ''['' # a @ CHR '']'' # rest) CHR '']'' = Suc (length a)"
  by (simp add: indexOf_def takeWhile_append)

lemma parseAddress_bracketed:
  assumes "CHR '']'' \<notin> set a"
  shows "parseAddress (''['' @ a @ '']'' @ rest)
         = \<lparr>host = ''['' @ a @ '']'',
            port = (if prefix '':'' rest
                    then (case parseInt (JSString (drop 1 rest)) of None \<Rightarrow> 443 | Some n \<Rightarrow> n)
                    else 443)\<rparr>"
  using assms by (simp add: parseAddress_def indexOf_bracket parseInt_443 Let_def)

text \<open>
  C9: \<open>parseAddress\<close> maps \<open>example.com\<close> to (example.com, 443), \<open>example.com:8443\<close> to
  (example.com, 8443), \<open>[::1]:9000\<close> to ([::1], 9000), \<open>[::1]\<close> to ([::1], 443), and
  \<open>host,9000\<close> and \<open>host;9000\<close> to what it maps \<open>host:9000\<close> to. In general: a host
  without separator and bracket gets port 443; host, separator (colon, comma or semicolon)
  and port text give the host and the number \<open>parseInt\<close> reads, or 443 when it reads none;
  a bracketed host keeps its brackets, with the port after \<open>]:\<close>, or 443 when that is
  absent or not a number.
\<close>

theorem parseAddress_examples:
  "parseAddress ''example.com'' = \<lparr>host = ''example.com'', port = 443\<rparr>
   \<and> parseAddress ''example.com:8443'' = \<lparr>host = ''example.com'', port = 8443\<rparr>
   \<and> parseAddress ''[::1]:9000'' = \<lparr>host = ''[::1]'', port = 9000\<rparr>
   \<and> parseAddress ''[::1]'' = \<lparr>host = ''[::1]'', port = 443\<rparr>
   \<and> parseAddress ''host,9000'' = parseAddress ''host:9000''
   \<and> parseAddress ''host;9000'' = parseAddress ''host:9000''
   \<and> (\<not> prefix ''['' h \<and> list_all (\<lambda>c. \<not> isSeparator c) h \<longrightarrow>
        parseAddress h = \<lparr>host = h, port = 443\<rparr>)
   \<and> (\<not> prefix ''['' h \<and> list_all (\<lambda>c. \<not> isSeparator c) h \<and> isSeparator c
        \<and> list_all (\<lambda>c. \<not> isSeparator c) p \<longrightarrow>
        parseAddress (h @ c # p)
        = \<lparr>host = h, port = (case parseInt (JSString p) of None \<Rightarrow> 443 | Some n \<Rightarrow> n)\<rparr>)
   \<and> (CHR '']'' \<notin> set a \<longrightarrow>
        parseAddress (''['' @ a @ '']'' @ rest)
        = \<lparr>host = ''['' @ a @ '']'',
           port = (if prefix '':'' rest
                   then (case parseInt (JSString (drop 1 rest)) of None \<Rightarrow> 443 | Some n \<Rightarrow> n)
                   else 443)\<rparr>)"
proof -
  have e1: "parseAddress ''example.com'' = \<lparr>host = ''example.com'', port = 443\<rparr>"
    by (simp add: parseAddress_def isSeparator_def indexOf_def parseInt_443)
  have e2: "parseAddress ''example.com:8443'' = \<lparr>host = ''example.com'', port = 8443\<rparr>"
    by (simp add: parseAddress_def isSeparator_def indexOf_def parseInt_def ToString_def isWhiteSpace_def
        isDigit_def digitValue_def)
  have e3: "parseAddress ''[::1]:9000'' = \<lparr>host = ''[::1]'', port = 9000\<rparr>"
    by (simp add: parseAddress_def isSeparator_def indexOf_def parseInt_def ToString_def isWhiteSpace_def
        isDigit_def digitValue_def)
  have e4: "parseAddress ''[::1]'' = \<lparr>host = ''[::1]'', port = 443\<rparr>"
    by (simp add: parseAddress_def isSeparator_def indexOf_def parseInt_443)
  have e5: "parseAddress ''host,9000'' = parseAddress ''host:9000''"
    by (simp add: parseAddress_def isSeparator_def indexOf_def parseInt_def ToString_def isWhiteSpace_def
        isDigit_def digitValue_def)
  have e6: "parseAddress ''host;9000'' = parseAddress ''host:9000''"
    by (simp add: parseAddress_def isSeparator_def indexOf_def parseInt_def ToString_def isWhiteSpace_def
        isDigit_def digitValue_def)
  have g1: "\<not> prefix ''['' h \<and> list_all (\<lambda>c. \<not> isSeparator c) h \<longrightarrow>
        parseAddress h = \<lparr>host = h, port = 443\<rparr>"
    using parseAddress_bare[of h] by (intro impI) (elim conjE)
  have g2: "\<not> prefix ''['' h \<and> list_all (\<lambda>c. \<not> isSeparator c) h \<and> isSeparator c
        \<and> list_all (\<lambda>c. \<not> isSeparator c) p \<longrightarrow>
        parseAddress (h @ c # p)
        = \<lparr>host = h, port = (case parseInt (JSString p) of None \<Rightarrow> 443 | Some n \<Rightarrow> n)\<rparr>"
    using parseAddress_separated[of h c p] by (intro impI) (elim conjE)
  have g3: "CHR '']'' \<notin> set a \<longrightarrow>
        parseAddress (''['' @ a @ '']'' @ rest)
        = \<lparr>host = ''['' @ a @ '']'',
           port = (if prefix '':'' rest
                   then (case parseInt (JSString (drop 1 rest)) of None \<Rightarrow> 443 | Some n \<Rightarrow> n)
                   else 443)\<rparr>"
    using parseAddress_bracketed[of a rest] by (intro impI)
  show ?thesis
    by (intro conjI) (fact e1, fact e2, fact e3, fact e4, fact e5, fact e6, fact g1, fact g2, fact g3)
qed

text \<open>The general clauses of C9 at \<open>host\<close>, \<open>host,abc\<close> and \<open>[::1]:abc\<close>.\<close>

theorem parseAddress_examples_witness:
  "\<not> prefix ''['' ''host'' \<and> list_all (\<lambda>c. \<not> isSeparator c) ''host'' \<and> isSeparator CHR '',''
   \<and> list_all (\<lambda>c. \<not> isSeparator c) ''abc'' \<and> CHR '']'' \<notin> set ''::1''
   \<and> parseInt (JSString ''abc'') = None
   \<and> parseAddress ''host'' = \<lparr>host = ''host'', port = 443\<rparr>
   \<and> parseAddress ''host,abc'' = \<lparr>host = ''host'', port = 443\<rparr>
   \<and> parseAddress ''[::1]:abc'' = \<lparr>host = ''[::1]'', port = 443\<rparr>"
proof -
  have h1: "\<not> prefix ''['' ''host''" by simp
  have h2: "list_all (\<lambda>c. \<not> isSeparator c) ''host''" by (simp add: isSeparator_def)
  have h3: "isSeparator CHR '',''" by (simp add: isSeparator_def)
  have h4: "list_all (\<lambda>c. \<not> isSeparator c) ''abc''" by (simp add: isSeparator_def)
  have h5: "CHR '']'' \<notin> set ''::1''" by simp
  have n: "parseInt (JSString ''abc'') = None"
    by (simp add: parseInt_def ToString_def isWhiteSpace_def isDigit_def)
  note t = parseAddress_examples[of "''host''" "CHR '',''" "''abc''" "''::1''" "'':abc''"]
  have c1: "parseAddress ''host'' = \<lparr>host = ''host'', port = 443\<rparr>"
    using t h1 h2 by (elim conjE) (erule impE, intro conjI)
  have "parseAddress (''host'' @ CHR '','' # ''abc'')
        = \<lparr>host = ''host'', port = (case parseInt (JSString ''abc'') of None \<Rightarrow> 443 | Some n \<Rightarrow> n)\<rparr>"
    using t h1 h2 h3 h4 by blast
  then have c2: "parseAddress ''host,abc'' = \<lparr>host = ''host'', port = 443\<rparr>"
    by (simp add: n)
  have "parseAddress (''['' @ ''::1'' @ '']'' @ '':abc'')
        = \<lparr>host = ''['' @ ''::1'' @ '']'',
           port = (if prefix '':'' '':abc''
                   then (case parseInt (JSString (drop 1 '':abc'')) of None \<Rightarrow> 443 | Some n \<Rightarrow> n)
                   else 443)\<rparr>"
    using t h5 by blast
  then have c3: "parseAddress ''[::1]:abc'' = \<lparr>host = ''[::1]'', port = 443\<rparr>"
    by (simp add: n)
  show ?thesis using h1 h2 h3 h4 h5 n c1 c2 c3 by blast
qed

section \<open>Claims about the ECH store\<close>

text \<open>
  C10: when \<open>Prepare\<close> (and so \<open>Refresh\<close>) fails, for whatever reason, the stored ECH
  value is unchanged. After any run of failing \<open>Prepare\<close> calls the manager is the one
  before the run, and \<open>GetECHList\<close> returns what it returned before: the value the last
  successful \<open>Prepare\<close> stored, or the error "not loaded" when nothing is stored.
\<close>

theorem failed_prepares_keep_store:
  assumes "Prepares decode nets m = Some (rs, m')" and "list_all (\<lambda>r. r \<noteq> None) rs"
  shows "m' = m \<and> GetECHList m' = GetECHList m
         \<and> (echList m = [] \<longrightarrow> GetECHList m' = Inl ErrECHNotLoaded)
         \<and> (echList m \<noteq> [] \<longrightarrow> GetECHList m' = Inr (echList m))"
proof -
  have "m' = m" using assms
  proof (induction nets arbitrary: m rs)
    case Nil
    then show ?case by simp
  next
    case (Cons net nets)
    from Cons.prems(1) obtain r m1 rs1 where
      p: "Prepare decode net m = Some (r, m1)" and
      ps: "Prepares decode nets m1 = Some (rs1, m')" and rs: "rs = r # rs1"
      by (auto split: option.splits prod.splits)
    from rs Cons.prems(2) obtain err where "r = Some err" and all: "list_all (\<lambda>r. r \<noteq> None) rs1"
      by auto
    with p have "m1 = m" using Prepare_failure by blast
    with Cons.IH[OF ps all] show ?case by simp
  qed
  then show ?thesis by (simp add: GetECHList_def)
qed

text \<open>
  C10 at a loaded store, with the three kinds of failure (the DoH request fails, the
  response has no ECH value, the decoder rejects the value), and at a new manager.
\<close>

theorem failed_prepares_keep_store_witness:
  "Prepares rejecting
     [network_down, answering (wire_response response_with_address_only),
      answering (wire_response response_with_ech)] store_loaded
   = Some ([Some (ErrDNSQueryFailed (ErrDoHRequest (ErrExternal ''timeout''))),
            Some ErrECHParamNotFound,
            Some (ErrECHDecodeFailed (ErrExternal ''illegal base64 data''))], store_loaded)
   \<and> GetECHList store_loaded = Inr [9, 9]
   \<and> Prepares rejecting [network_down] (NewECHManager ''a'' ''dns.example'')
       = Some ([Some (ErrDNSQueryFailed (ErrDoHRequest (ErrExternal ''timeout'')))],
               NewECHManager ''a'' ''dns.example'')
   \<and> GetECHList (NewECHManager ''a'' ''dns.example'') = Inl ErrECHNotLoaded"
proof -
  let ?rs = "[Some (ErrDNSQueryFailed (ErrDoHRequest (ErrExternal ''timeout''))),
            Some ErrECHParamNotFound,
            Some (ErrECHDecodeFailed (ErrExternal ''illegal base64 data''))]"
  have p1: "Prepare rejecting network_down m
            = Some (Some (ErrDNSQueryFailed (ErrDoHRequest (ErrExternal ''timeout''))), m)" for m
    by (simp add: Prepare_def queryHTTPSRecord_def queryDoH_def network_down_def)
  have p2: "Prepare rejecting (answering (wire_response response_with_address_only)) m
            = Some (Some ErrECHParamNotFound, m)" for m
    by (simp add: Prepare_def queryHTTPSRecord_def queryDoH_def answering_def
        parse_response_with_address_only)
  have p3: "Prepare rejecting (answering (wire_response response_with_ech)) m
            = Some (Some (ErrECHDecodeFailed (ErrExternal ''illegal base64 data'')), m)" for m
    by (simp add: Prepare_def queryHTTPSRecord_def queryDoH_def answering_def
        parse_response_with_ech rejecting_def)
  have run: "Prepares rejecting
     [network_down, answering (wire_response response_with_address_only),
      answering (wire_response response_with_ech)] store_loaded = Some (?rs, store_loaded)"
    by (simp add: p1 p2 p3)
  have all: "list_all (\<lambda>r. r \<noteq> None) ?rs" by simp
  have run0: "Prepares rejecting [network_down] (NewECHManager ''a'' ''dns.example'')
       = Some ([Some (ErrDNSQueryFailed (ErrDoHRequest (ErrExternal ''timeout'')))],
               NewECHManager ''a'' ''dns.example'')"
    by (simp add: p1)
  have all0: "list_all (\<lambda>r. r \<noteq> None) [Some (ErrDNSQueryFailed (ErrDoHRequest (ErrExternal ''timeout'')))]"
    by simp
  have ne: "echList store_loaded \<noteq> []" "echList store_loaded = [9, 9]"
    by (simp_all add: store_loaded_def)
  have e0: "echList (NewECHManager ''a'' ''dns.example'') = []"
    by (simp add: NewECHManager_def)
  have g1: "GetECHList store_loaded = Inr [9, 9]"
    using failed_prepares_keep_store[OF run all] ne by simp
  have g0: "GetECHList (NewECHManager ''a'' ''dns.example'') = Inl ErrECHNotLoaded"
    using failed_prepares_keep_store[OF run0 all0] e0 by simp
  show ?thesis using run g1 run0 g0 by blast
qed

section \<open>Claims about the dialer\<close>

text \<open>
  C7: with \<open>maxRetries = 3\<close>, when \<open>BuildTLSConfig\<close> fails in the first two attempts with
  a message that the dialer recognises as ECH-related and succeeds in the third (and the
  server address parses and the third dial succeeds), \<open>DialWithECH\<close> returns the connection,
  and \<open>Refresh\<close> has been called exactly twice, once after each failure, each time followed
  by a sleep of 500 milliseconds before the next attempt.
\<close>

theorem dial_after_two_refreshes:
  assumes "ParseServerAddr (SplitHostPort E) c = Inr (h, p, pth)"
    and "BuildTLSConfig (SystemCertPool E 1) h (manager s0) = Inl e1"
    and "Contains (Error e1) substrECHConfig \<or> Contains (Error e1) substrECHNotFound"
    and "refreshAndSleep E 1 500 s0 = Some s1"
    and "BuildTLSConfig (SystemCertPool E 2) h (manager s1) = Inl e2"
    and "Contains (Error e2) substrECHConfig \<or> Contains (Error e2) substrECHNotFound"
    and "refreshAndSleep E 2 500 s1 = Some s2"
    and "BuildTLSConfig (SystemCertPool E 3) h (manager s2) = Inr cfg"
    and "Dial E 3 = Inr conn"
  shows "DialWithECH E c 3 s0
         = Some (Inr conn,
                 s2\<lparr>trace := trace s2 @ [Dialed (''wss://'' @ h @ '':'' @ p @ pth) (Subprotocols c)]\<rparr>)
         \<and> (\<exists>r1 r2. trace s2 = trace s0 @ [Refreshed r1, Slept 500, Refreshed r2, Slept 500])"
proof -
  let ?url = "''wss://'' @ h @ '':'' @ p @ pth"
  obtain r1 where t1: "trace s1 = trace s0 @ [Refreshed r1, Slept 500]"
    using refreshAndSleep_trace[OF assms(4)] by blast
  obtain r2 where t2: "trace s2 = trace s1 @ [Refreshed r2, Slept 500]"
    using refreshAndSleep_trace[OF assms(7)] by blast
  have "DialWithECH E c 3 s0 = attemptLoop E c h ?url 3 1 None s0"
    by (simp add: DialWithECH_def assms(1))
  also have "\<dots> = attemptLoop E c h ?url 3 (1 + 1) (Some e1) s1"
    by (rule attemptLoop_build_retry[OF _ assms(2,3,4)]) simp
  also have "\<dots> = attemptLoop E c h ?url 3 (2 + 1) (Some e2) s2"
    using attemptLoop_build_retry[OF _ assms(5,6,7), of 3 c ?url "Some e1"] by simp
  also have "\<dots> = Some (Inr conn, s2\<lparr>trace := trace s2 @ [Dialed ?url (Subprotocols c)]\<rparr>)"
    using attemptLoop_connected[OF _ assms(8,9), of 3 c ?url "Some e2"] by simp
  finally show ?thesis using t1 t2 by simp
qed

text \<open>
  C7 where the store starts empty, the first \<open>Refresh\<close> fails (the network is down) and
  the second one loads the ECH value.
\<close>

theorem dial_after_two_refreshes_witness:
  "ParseServerAddr (SplitHostPort environment_refresh_twice) client_example
     = Inr (''example.com'', ''443'', ''/ws'')
   \<and> BuildTLSConfig (SystemCertPool environment_refresh_twice 1) ''example.com''
       (NewECHManager ''a'' ''dns.example'') = Inl ErrECHNotLoaded
   \<and> Contains (Error ErrECHNotLoaded) substrECHConfig
   \<and> refreshAndSleep environment_refresh_twice 1 500
       \<lparr>manager = NewECHManager ''a'' ''dns.example'', trace = []\<rparr>
       = Some \<lparr>manager = NewECHManager ''a'' ''dns.example'',
               trace = [Refreshed (Some (ErrDNSQueryFailed (ErrDoHRequest (ErrExternal ''timeout'')))),
                        Slept 500]\<rparr>
   \<and> refreshAndSleep environment_refresh_twice 2 500
       \<lparr>manager = NewECHManager ''a'' ''dns.example'',
        trace = [Refreshed (Some (ErrDNSQueryFailed (ErrDoHRequest (ErrExternal ''timeout'')))),
                 Slept 500]\<rparr>
       = Some \<lparr>manager = (NewECHManager ''a'' ''dns.example'')\<lparr>echList := [1, 2, 3]\<rparr>,
               trace = [Refreshed (Some (ErrDNSQueryFailed (ErrDoHRequest (ErrExternal ''timeout'')))),
                        Slept 500, Refreshed None, Slept 500]\<rparr>
   \<and> BuildTLSConfig (SystemCertPool environment_refresh_twice 3) ''example.com''
       ((NewECHManager ''a'' ''dns.example'')\<lparr>echList := [1, 2, 3]\<rparr>)
       = Inr \<lparr>MinVersion = VersionTLS13, ServerName = ''example.com'',
              EncryptedClientHelloConfigList = [1, 2, 3], RootCAs = ''system roots''\<rparr>
   \<and> Dial environment_refresh_twice 3 = Inr 7
   \<and> DialWithECH environment_refresh_twice client_example 3
       \<lparr>manager = NewECHManager ''a'' ''dns.example'', trace = []\<rparr>
       = Some (Inr 7,
               \<lparr>manager = (NewECHManager ''a'' ''dns.example'')\<lparr>echList := [1, 2, 3]\<rparr>,
                trace = [Refreshed (Some (ErrDNSQueryFailed (ErrDoHRequest (ErrExternal ''timeout'')))),
                         Slept 500, Refreshed None, Slept 500,
                         Dialed ''wss://example.com:443/ws'' [''secret'']]\<rparr>)"
proof -
  let ?E = environment_refresh_twice
  let ?m0 = "NewECHManager ''a'' ''dns.example''"
  let ?m2 = "?m0\<lparr>echList := [1, 2, 3]\<rparr>"
  let ?t1 = "[Refreshed (Some (ErrDNSQueryFailed (ErrDoHRequest (ErrExternal ''timeout'')))), Slept 500]"
  let ?s0 = "\<lparr>manager = ?m0, trace = []\<rparr>"
  let ?s1 = "\<lparr>manager = ?m0, trace = ?t1\<rparr>"
  let ?s2 = "\<lparr>manager = ?m2, trace = ?t1 @ [Refreshed None, Slept 500]\<rparr>"
  let ?cfg = "\<lparr>MinVersion = VersionTLS13, ServerName = ''example.com'',
              EncryptedClientHelloConfigList = [1, 2, 3], RootCAs = ''system roots''\<rparr>"
  have a: "ParseServerAddr (SplitHostPort ?E) client_example = Inr (''example.com'', ''443'', ''/ws'')"
    by (simp add: ParseServerAddr_def environment_refresh_twice_def client_example_def
        IndexSlash_def Let_def)
  have b1: "BuildTLSConfig (SystemCertPool ?E 1) ''example.com'' (manager ?s0) = Inl ErrECHNotLoaded"
    by (simp add: BuildTLSConfig_def GetECHList_def NewECHManager_def)
  have r: "Contains (Error ErrECHNotLoaded) substrECHConfig \<or> Contains (Error ErrECHNotLoaded) substrECHNotFound"
    by (simp add: substrECHConfig_def)
  have s1: "refreshAndSleep ?E 1 500 ?s0 = Some ?s1"
    by (simp add: refreshAndSleep_def Refresh_def Prepare_def queryHTTPSRecord_def queryDoH_def
        network_down_def environment_refresh_twice_def)
  have b2: "BuildTLSConfig (SystemCertPool ?E 2) ''example.com'' (manager ?s1) = Inl ErrECHNotLoaded"
    by (simp add: BuildTLSConfig_def GetECHList_def NewECHManager_def)
  have s2: "refreshAndSleep ?E 2 500 ?s1 = Some ?s2"
    by (simp add: refreshAndSleep_def Refresh_def Prepare_def queryHTTPSRecord_def queryDoH_def
        answering_def environment_refresh_twice_def parse_response_with_ech)
  have b3: "BuildTLSConfig (SystemCertPool ?E 3) ''example.com'' (manager ?s2) = Inr ?cfg"
    by (simp add: BuildTLSConfig_def GetECHList_def NewECHManager_def environment_refresh_twice_def)
  have d: "Dial ?E 3 = Inr 7"
    by (simp add: environment_refresh_twice_def)
  have "DialWithECH ?E client_example 3 ?s0
        = Some (Inr 7, ?s2\<lparr>trace := trace ?s2
                  @ [Dialed (''wss://'' @ ''example.com'' @ '':'' @ ''443'' @ ''/ws'') (Subprotocols client_example)]\<rparr>)"
    using dial_after_two_refreshes[OF a b1 r s1 b2 r s2 b3 d] by (rule conjunct1)
  then have c: "DialWithECH ?E client_example 3 ?s0
        = Some (Inr 7, \<lparr>manager = ?m2,
                trace = [Refreshed (Some (ErrDNSQueryFailed (ErrDoHRequest (ErrExternal ''timeout'')))),
                         Slept 500, Refreshed None, Slept 500,
                         Dialed ''wss://example.com:443/ws'' [''secret'']]\<rparr>)"
    by (simp add: Subprotocols_def client_example_def)
  have r': "Contains (Error ErrECHNotLoaded) substrECHConfig" by (simp add: substrECHConfig_def)
  show ?thesis
    using a b1 r' s1 s2 b3 d c by simp
qed

text \<open>
  C8: when every one of the \<open>maxRetries\<close> attempts has failed, the claim has
  \<open>DialWithECH\<close> return the last error wrapped as "reached the maximum number of retries".
  The code does not: the last attempt returns from inside the loop, so with
  \<open>maxRetries = 2\<close> and two dials refused with an ECH error the result is the last error
  wrapped as "WebSocket connection failed". (For \<open>maxRetries\<close> of 1 or more the
  statement after the loop is never reached: \<open>DialWithECH_not_exhausted\<close>.)
\<close>

theorem last_attempt_is_not_exhaustion:
  "DialWithECH environment_ech_rejected client_example 2 \<lparr>manager = store_loaded, trace = []\<rparr>
   = Some (Inl (ErrWSDial (ErrExternal ''tls: server rejected ECH'')),
           \<lparr>manager = store_loaded,
            trace = [Dialed ''wss://example.com:443/ws'' [''secret''],
                     Refreshed (Some (ErrDNSQueryFailed (ErrDoHRequest (ErrExternal ''timeout'')))),
                     Slept 1000,
                     Dialed ''wss://example.com:443/ws'' [''secret'']]\<rparr>)"
proof -
  let ?E = environment_ech_rejected
  let ?url = "''wss://example.com:443/ws''"
  let ?s0 = "\<lparr>manager = store_loaded, trace = []\<rparr>"
  let ?s1 = "\<lparr>manager = store_loaded,
             trace = [Dialed ?url [''secret''],
                      Refreshed (Some (ErrDNSQueryFailed (ErrDoHRequest (ErrExternal ''timeout'')))),
                      Slept 1000]\<rparr>"
  let ?cfg = "\<lparr>MinVersion = VersionTLS13, ServerName = ''example.com'',
              EncryptedClientHelloConfigList = [9, 9], RootCAs = ''system roots''\<rparr>"
  let ?e = "ErrExternal ''tls: server rejected ECH''"
  have a: "ParseServerAddr (SplitHostPort ?E) client_example = Inr (''example.com'', ''443'', ''/ws'')"
    by (simp add: ParseServerAddr_def environment_ech_rejected_def client_example_def
        IndexSlash_def Let_def)
  have b: "BuildTLSConfig (SystemCertPool ?E k) ''example.com'' store_loaded = Inr ?cfg" for k
    by (simp add: BuildTLSConfig_def GetECHList_def store_loaded_def environment_ech_rejected_def)
  have d: "Dial ?E k = Inl ?e" for k
    by (simp add: environment_ech_rejected_def)
  have r: "Contains (Error ?e) ''ECH'' \<or> Contains (Error ?e) ''encrypted''"
    by simp
  have sub: "Subprotocols client_example = [''secret'']"
    by (simp add: Subprotocols_def client_example_def)
  have rs: "refreshAndSleep ?E 1 1000 (?s0\<lparr>trace := trace ?s0 @ [Dialed ?url (Subprotocols client_example)]\<rparr>)
            = Some ?s1"
    by (simp add: refreshAndSleep_def Refresh_def Prepare_def queryHTTPSRecord_def queryDoH_def
        network_down_def environment_ech_rejected_def sub)
  have "DialWithECH ?E client_example 2 ?s0 = attemptLoop ?E client_example ''example.com'' ?url 2 1 None ?s0"
    by (simp add: DialWithECH_def a)
  also have "\<dots> = attemptLoop ?E client_example ''example.com'' ?url 2 (1 + 1) (Some ?e) ?s1"
    by (rule attemptLoop_dial_retry[OF _ _ d r rs]) (simp_all add: b)
  also have "\<dots> = Some (Inl (ErrWSDial ?e), ?s1\<lparr>trace := trace ?s1 @ [Dialed ?url (Subprotocols client_example)]\<rparr>)"
    by (rule attemptLoop_dial_fatal[OF _ _ d]) (simp_all add: b)
  finally show ?thesis by (simp add: sub)
qed

section \<open>Claims about the relay session\<close>


text \<open>
  The session of the counterexample and a session that is connecting, with what the
  second \<open>CONNECT\<close> message meets there. The connected session is also reached when the
  handler of the first message waits and its promise settles before the second message,
  and the handling of the second message, which awaits nothing, is the same step in both
  readings. In the connecting session the first attempt, which the teardown does not
  cancel, may go on to open the fallback connection, take its writer and reader and send
  \<open>CONNECTED\<close>, all in the closed session.
\<close>

lemma parse_example: "parseAddress ''example.com:443'' = \<lparr>host = ''example.com'', port = 443\<rparr>"
  by (simp add: parseAddress_def isSeparator_def parseInt_def ToString_def
      isWhiteSpace_def isDigit_def digitValue_def Let_def)

lemma parse_fallback: "parseAddress ''192.0.2.7'' = \<lparr>host = ''192.0.2.7'', port = 443\<rparr>"
  by (rule parseAddress_bare) (simp_all add: isSeparator_def)

lemma session_connecting_eq:
  "session_connecting =
     \<lparr>vars = \<lparr>remoteSocket = Some 0, remoteWriter = None, remoteReader = None, isClosed = False,
              isConnecting = True, connectionAttempts = 0, readyState = 1, sockets = 1,
              pump = NoPump, effects = [SocketOpened 0 ''example.com'' 443]\<rparr>,
      waiting = [\<lparr>waitsAt = AwaitOpened, originalAddr = \<lparr>host = ''example.com'', port = 443\<rparr>,
                  firstFrame = ''hello'', attemptNo = 0, fallbacks = [Some ''192.0.2.7'']\<rparr>],
      writes = 0\<rparr>"
  by (simp add: session_connecting_def idle_def handleSession_def listener_def piece_def
      connectBegin_def established_def attemptConnect_def connectCatch_def started_def
      parse_example does_def Let_def)

lemma held_session_connecting:
  "held (vars session_connecting) = [SocketClosed 0, WsClosed 1000 ''Server closed'']"
  by (simp add: session_connecting_eq held_def)



lemma fallback_connection_outlives_teardown:
  "play session_connecting
     [second_connect_message, Settled 0 opened_blocked, Settled 0 established, Settled 0 established]
   = \<lparr>vars = \<lparr>remoteSocket = Some 1, remoteWriter = Some 1, remoteReader = Some 1, isClosed = True,
              isConnecting = False, connectionAttempts = 0, readyState = 1, sockets = 2,
              pump = NoPump,
              effects = [SocketOpened 0 ''example.com'' 443,
                         WsSent (Text (''ERROR:'' @ msgAlreadyConnecting)),
                         SocketClosed 0, WsClosed 1000 ''Server closed'',
                         SocketOpened 1 ''192.0.2.7'' 443, WriterAcquired 1, ReaderAcquired 1,
                         WriterWrote 1 (encode ''hello''), WsSent (Text ''CONNECTED'')]\<rparr>,
      waiting = [], writes = 0\<rparr>"
proof -
  have h1: "\<not> isClosed (vars session_connecting)" by (simp add: session_connecting_eq)
  have h2: "isConnecting (vars session_connecting) \<or> remoteSocket (vars session_connecting) \<noteq> None"
    by (simp add: session_connecting_eq)
  have h3: "prefix ''CONNECT:'' ''CONNECT:other.example:80''" by simp
  have h4: "drop 8 (piece (splitAt (\<lambda>c. c = CHR ''|'') ''CONNECT:other.example:80'') 0) \<noteq> []"
    by (simp add: piece_def)
  have a: "deliver session_connecting second_connect_message
     = \<lparr>vars = \<lparr>remoteSocket = None, remoteWriter = None, remoteReader = None, isClosed = True,
                isConnecting = False, connectionAttempts = 0, readyState = 1, sockets = 1,
                pump = NoPump,
                effects = [SocketOpened 0 ''example.com'' 443,
                           WsSent (Text (''ERROR:'' @ msgAlreadyConnecting)),
                           SocketClosed 0, WsClosed 1000 ''Server closed'']\<rparr>,
        waiting = [\<lparr>waitsAt = AwaitOpened, originalAddr = \<lparr>host = ''example.com'', port = 443\<rparr>,
                    firstFrame = ''hello'', attemptNo = 0, fallbacks = [Some ''192.0.2.7'']\<rparr>],
        writes = 0\<rparr>" (is "_ = ?ra")
    unfolding second_connect_message_def listener_second_connect[OF h1 h2 h3 h4] held_session_connecting
    by (simp add: session_connecting_eq)
  have cf: "isCFError ''proxy request failed''"
    by (simp add: isCFError_def toLowerCase_def Let_def)
  have b: "deliver ?ra (Settled 0 opened_blocked)
     = \<lparr>vars = \<lparr>remoteSocket = Some 1, remoteWriter = None, remoteReader = None, isClosed = True,
                isConnecting = False, connectionAttempts = 0, readyState = 1, sockets = 2,
                pump = NoPump,
                effects = [SocketOpened 0 ''example.com'' 443,
                           WsSent (Text (''ERROR:'' @ msgAlreadyConnecting)),
                           SocketClosed 0, WsClosed 1000 ''Server closed'',
                           SocketOpened 1 ''192.0.2.7'' 443]\<rparr>,
        waiting = [\<lparr>waitsAt = AwaitOpened, originalAddr = \<lparr>host = ''example.com'', port = 443\<rparr>,
                    firstFrame = ''hello'', attemptNo = 1, fallbacks = []\<rparr>],
        writes = 0\<rparr>" (is "_ = ?rb")
    by (simp add: connectResume_def opened_blocked_def attemptOpened_def attemptCleanup_cleared cf
        attemptConnect_def parse_fallback connectCatch_def resumed_def does_def Let_def)
  have c: "deliver ?rb (Settled 0 established)
     = \<lparr>vars = \<lparr>remoteSocket = Some 1, remoteWriter = Some 1, remoteReader = Some 1, isClosed = True,
                isConnecting = False, connectionAttempts = 0, readyState = 1, sockets = 2,
                pump = NoPump,
                effects = [SocketOpened 0 ''example.com'' 443,
                           WsSent (Text (''ERROR:'' @ msgAlreadyConnecting)),
                           SocketClosed 0, WsClosed 1000 ''Server closed'',
                           SocketOpened 1 ''192.0.2.7'' 443, WriterAcquired 1, ReaderAcquired 1,
                           WriterWrote 1 (encode ''hello'')]\<rparr>,
        waiting = [\<lparr>waitsAt = AwaitWrite, originalAddr = \<lparr>host = ''example.com'', port = 443\<rparr>,
                    firstFrame = ''hello'', attemptNo = 1, fallbacks = []\<rparr>],
        writes = 0\<rparr>" (is "_ = ?rc")
    by (simp add: connectResume_def established_def attemptOpened_def connectCatch_def resumed_def
        does_def Let_def)
  have d: "deliver ?rc (Settled 0 established)
     = \<lparr>vars = \<lparr>remoteSocket = Some 1, remoteWriter = Some 1, remoteReader = Some 1, isClosed = True,
              isConnecting = False, connectionAttempts = 0, readyState = 1, sockets = 2,
              pump = NoPump,
              effects = [SocketOpened 0 ''example.com'' 443,
                         WsSent (Text (''ERROR:'' @ msgAlreadyConnecting)),
                         SocketClosed 0, WsClosed 1000 ''Server closed'',
                         SocketOpened 1 ''192.0.2.7'' 443, WriterAcquired 1, ReaderAcquired 1,
                         WriterWrote 1 (encode ''hello''), WsSent (Text ''CONNECTED'')]\<rparr>,
      waiting = [], writes = 0\<rparr>"
    by (simp add: connectResume_def established_def attemptWritten_def attemptConnected_def
        pumpRemoteToWebSocket_def pumpLoop_def pumpAfter_def connectCatch_def resumed_def
        does_def Let_def)
  show ?thesis
    unfolding play_def by (simp only: foldl.simps a b c d)
qed

lemma session_connected_reached:
  "play (idle (handleSession 1))
     [OnMessage (StringData ''CONNECT:example.com:443'') established, Settled 0 established]
   = idle session_connected"
  by (simp add: play_def idle_def handleSession_def listener_def piece_def
      connectBegin_def established_def attemptConnect_def connectCatch_def started_def
      parse_example does_def Let_def connectResume_def attemptOpened_def attemptConnected_def
      resumed_def pumpRemoteToWebSocket_def pumpLoop_def session_connected_eq)

lemma second_connect_at_once:
  "deliver (idle session_connected) second_connect_message = idle (step session_connected second_connect)"
proof -
  have h1: "\<not> isClosed session_connected" by (simp add: session_connected_eq)
  have h2: "isConnecting session_connected \<or> remoteSocket session_connected \<noteq> None"
    by (simp add: session_connected_eq)
  have h3: "prefix ''CONNECT:'' ''CONNECT:other.example:80''" by simp
  have h4: "drop 8 (piece (splitAt (\<lambda>c. c = CHR ''|'') ''CONNECT:other.example:80'') 0) \<noteq> []"
    by (simp add: piece_def)
  have v: "vars (idle session_connected) = session_connected" by (simp add: idle_def)
  show ?thesis
    unfolding second_connect_message_def second_connect_def
    by (subst listener_second_connect[where str = "''CONNECT:other.example:80''"])
       (simp_all only: v h1 h2 h3 h4 not_False_eq_True onMessage_second_connect[OF h1 h2 h3 h4],
        simp add: idle_def)
qed





text \<open>
  C6: within one session the pump restarts at most 3 times (over the whole session, so
  also in each streak of errors); a failed read with fewer than 3 attempts made schedules
  a restart after 1000 ms times the number of the attempt, and the restart happens when the
  delay is over and the socket is still readable; a failed read after 3 attempts, or a
  delay that ends with the socket gone or not readable, sends \<open>CLOSE\<close> and tears the
  session down; and once the session is closed no restart occurs, whatever events follow.
\<close>

theorem pump_restarts_bounded:
  "restarts (effects (run (handleSession n) evs)) \<le> 3
   \<and> (pump sa = AwaitRead \<and> \<not> isClosed sa \<and> connectionAttempts sa < 3 \<longrightarrow>
        step sa (ReadSettled ReadRejects ba)
        = sa\<lparr>connectionAttempts := connectionAttempts sa + 1, pump := AwaitDelay,
             effects := effects sa @ [TimerSet (1000 * (connectionAttempts sa + 1))]\<rparr>)
   \<and> (pump sb = AwaitDelay \<and> \<not> isClosed sb \<and> remoteSocket sb = Some k \<longrightarrow>
        step sb (DelayElapsed True False)
        = sb\<lparr>remoteReader := Some k, pump := AwaitRead,
             effects := effects sb @ [ReaderAcquired k, PumpRestarted]\<rparr>)
   \<and> (pump sc = AwaitRead \<and> \<not> isClosed sc \<and> 3 \<le> connectionAttempts sc \<longrightarrow>
        step sc (ReadSettled ReadRejects bc)
        = sc\<lparr>remoteSocket := None, remoteWriter := None, remoteReader := None,
             isClosed := True, isConnecting := False, pump := NoPump,
             effects := effects sc @ WsSent (Text ''CLOSE'') # held sc\<rparr>)
   \<and> (pump sd = AwaitDelay \<and> \<not> isClosed sd
        \<and> (remoteSocket sd = None \<or> \<not> readable \<or> getReaderThrows) \<longrightarrow>
        step sd (DelayElapsed readable getReaderThrows)
        = sd\<lparr>remoteSocket := None, remoteWriter := None, remoteReader := None,
             isClosed := True, isConnecting := False, pump := NoPump,
             effects := effects sd @ WsSent (Text ''CLOSE'') # held sd\<rparr>)
   \<and> (isClosed (run (handleSession n) evs) \<longrightarrow>
        isClosed (run (run (handleSession n) evs) evs')
        \<and> restarts (effects (run (run (handleSession n) evs) evs'))
          = restarts (effects (run (handleSession n) evs)))"
proof -
  have i: "session_inv (run (handleSession n) evs)"
    by (rule session_inv_run[OF session_inv_handleSession])
  show ?thesis
    using restarts_bounded[of n evs] read_error_schedules_restart[of sa ba]
      delay_restarts[of sb k] read_error_exhausted[of sc bc]
      delay_without_socket[of sd readable getReaderThrows] closed_run[OF i, of evs']
    by blast
qed

text \<open>
  C6 at a connected session whose reads fail: three restarts after 1000, 2000 and 3000 ms,
  then \<open>CLOSE\<close> and the teardown.
\<close>

theorem pump_restarts_bounded_witness:
  "pump session_connected = AwaitRead \<and> \<not> isClosed session_connected
   \<and> connectionAttempts session_connected < 3
   \<and> pump (step session_connected failed_read) = AwaitDelay
   \<and> \<not> isClosed (step session_connected failed_read)
   \<and> remoteSocket (step session_connected failed_read) = Some 0
   \<and> pump session_restarted_thrice = AwaitRead \<and> \<not> isClosed session_restarted_thrice
   \<and> 3 \<le> connectionAttempts session_restarted_thrice
   \<and> restarts (effects session_restarted_thrice) = 3
   \<and> restarts (effects (run (handleSession 1) failing_session)) \<le> 3
   \<and> effects (step session_connected failed_read) = effects session_connected @ [TimerSet 1000]
   \<and> effects (step (step session_connected failed_read) delay_over)
     = effects session_connected @ [TimerSet 1000, ReaderAcquired 0, PumpRestarted]
   \<and> run (handleSession 1) failing_session
     = \<lparr>remoteSocket = None, remoteWriter = None, remoteReader = None, isClosed = True,
        isConnecting = False, connectionAttempts = 3, readyState = 1, sockets = 1, pump = NoPump,
        effects = effects session_restarted_thrice
                  @ [WsSent (Text ''CLOSE''), WriterReleased 0, ReaderReleased 0, SocketClosed 0,
                     WsClosed 1000 ''Server closed'']\<rparr>
   \<and> isClosed (step (step session_connected failed_read) (DelayElapsed False False))
   \<and> restarts (effects (run (run (handleSession 1) failing_session) [failed_read, delay_over]))
     = restarts (effects (run (handleSession 1) failing_session))"
proof -
  let ?d = "step session_connected failed_read"
  note t = pump_restarts_bounded[where n = 1 and evs = failing_session and sa = session_connected
      and ba = False and sb = ?d and k = 0 and sc = session_restarted_thrice and bc = False
      and sd = ?d and readable = False and getReaderThrows = False
      and evs' = "[failed_read, delay_over]"]
  have a1: "pump session_connected = AwaitRead" "\<not> isClosed session_connected"
    "connectionAttempts session_connected < 3"
    by (simp_all add: session_connected_eq)
  have d: "?d = session_connected\<lparr>connectionAttempts := connectionAttempts session_connected + 1,
             pump := AwaitDelay,
             effects := effects session_connected @ [TimerSet (1000 * (connectionAttempts session_connected + 1))]\<rparr>"
    using t a1 unfolding failed_read_def by blast
  have a2: "pump ?d = AwaitDelay" "\<not> isClosed ?d" "remoteSocket ?d = Some 0"
    unfolding d by (simp_all add: session_connected_eq)
  have a3: "pump session_restarted_thrice = AwaitRead" "\<not> isClosed session_restarted_thrice"
    "3 \<le> connectionAttempts session_restarted_thrice"
    by (simp_all add: session_restarted_thrice_eq)
  have r3: "restarts (effects session_restarted_thrice) = 3"
    by (simp add: session_restarted_thrice_eq)
  have c0: "restarts (effects (run (handleSession 1) failing_session)) \<le> 3"
    using t by blast
  have c1: "effects ?d = effects session_connected @ [TimerSet 1000]"
    unfolding d by (simp add: session_connected_eq)
  have "step ?d (DelayElapsed True False)
        = ?d\<lparr>remoteReader := Some 0, pump := AwaitRead,
             effects := effects ?d @ [ReaderAcquired 0, PumpRestarted]\<rparr>"
    using t a2 by blast
  then have c2: "effects (step ?d delay_over)
     = effects session_connected @ [TimerSet 1000, ReaderAcquired 0, PumpRestarted]"
    unfolding delay_over_def by (simp add: c1)
  have "step session_restarted_thrice (ReadSettled ReadRejects False)
        = session_restarted_thrice\<lparr>remoteSocket := None, remoteWriter := None, remoteReader := None,
             isClosed := True, isConnecting := False, pump := NoPump,
             effects := effects session_restarted_thrice @ WsSent (Text ''CLOSE'')
                        # held session_restarted_thrice\<rparr>"
    using t a3 by blast
  then have c3: "run (handleSession 1) failing_session
     = \<lparr>remoteSocket = None, remoteWriter = None, remoteReader = None, isClosed = True,
        isConnecting = False, connectionAttempts = 3, readyState = 1, sockets = 1, pump = NoPump,
        effects = effects session_restarted_thrice
                  @ [WsSent (Text ''CLOSE''), WriterReleased 0, ReaderReleased 0, SocketClosed 0,
                     WsClosed 1000 ''Server closed'']\<rparr>"
    unfolding failing_session_prefix failed_read_def
    by (simp add: session_restarted_thrice_eq held_def)
  have "step ?d (DelayElapsed False False)
        = ?d\<lparr>remoteSocket := None, remoteWriter := None, remoteReader := None,
             isClosed := True, isConnecting := False, pump := NoPump,
             effects := effects ?d @ WsSent (Text ''CLOSE'') # held ?d\<rparr>"
    using t a2 by blast
  then have c4: "isClosed (step ?d (DelayElapsed False False))" by simp
  have cl: "isClosed (run (handleSession 1) failing_session)" unfolding c3 by simp
  have c5: "restarts (effects (run (run (handleSession 1) failing_session) [failed_read, delay_over]))
     = restarts (effects (run (handleSession 1) failing_session))"
    using t cl by blast
  show ?thesis
    using a1 a2 a3 r3 c0 c1 c2 c3 c4 c5 by blast
qed

end
